theory Spec2Isabelle
  imports Complex_Main
begin

section \<open>The glif\_cond neuron: data model of \<open>models/glif_cond.h\<close>\<close>

text \<open>
  The header declares the class \<open>glif_cond\<close> with its four member structs and defines, inline,
  \<open>get_state_element\<close>, \<open>Parameters_::n_receptors_\<close>, two of the three
  \<open>handles_test_event\<close> overloads and \<open>set_status\<close>. Everything else of the class
  (\<open>Parameters_::set\<close>, \<open>State_::set\<close>, the constructors, \<open>calibrate\<close>, \<open>update\<close>, the
  spike overload of \<open>handles_test_event\<close>, \<open>get_g_receptor_name\<close>) is only declared there.

  Naming: the members of the C++ structs end in an underscore, which an Isabelle constant
  cannot. The underscore is dropped (\<open>tau_syn_\<close> becomes \<open>tau_syn\<close>); a member whose name
  would then be a single letter carries the letter of its struct in front (\<open>P_.G_\<close> is
  \<open>P_G\<close>, \<open>S_.y_\<close> is \<open>S_y\<close>, \<open>B_.I_\<close> is \<open>B_I\<close>), and the four struct members of the neuron
  are \<open>node_P\<close>, \<open>node_S\<close>, \<open>node_V\<close>, \<open>node_B\<close>.

  The C++ \<open>double\<close> is the type variable \<open>'d\<close>: the functions below ask of it only the
  operations they use, so what is proved of them does not depend on how \<open>+\<close> rounds.
  \<open>size_t\<close> is \<open>nat\<close>: the only arithmetic on it is \<open>G_SYN + 2 * receptor\<close> for a receptor
  below the size of a \<open>std::vector<double>\<close>, which cannot wrap, and a subtraction that
  is guarded by the branch it stands in. \<open>nest::port\<close> (a signed \<open>long\<close>) is \<open>int\<close>.
\<close>

subsection \<open>Exceptions\<close>

text \<open>
  \<open>BadProperty\<close> and \<open>UnknownReceptorType\<close> are the two exceptions the header names.
  \<open>KeyError\<close> is the registry's, for a name it does not hold, and
  \<open>ReceptorPortOutOfRange\<close> stands for the rejection of a spike event whose port is out of
  range, which the header does not name.
\<close>

datatype error =
    BadProperty
  | UnknownReceptorType int
  | ReceptorPortOutOfRange int
  | KeyError string

subsection \<open>\<open>struct Parameters_\<close>\<close>

record 'd Parameters =
  P_G :: 'd
  E_L :: 'd
  th_inf :: 'd
  C_m :: 'd
  t_ref :: 'd
  V_reset :: 'd
  th_spike_add :: 'd
  th_spike_decay :: 'd
  voltage_reset_fraction :: 'd
  voltage_reset_add :: 'd
  th_voltage_index :: 'd
  th_voltage_decay :: 'd
  asc_init :: "'d list"
  asc_decay :: "'d list"
  asc_amps :: "'d list"
  asc_r :: "'d list"
  tau_syn :: "'d list"
  E_rev :: "'d list"
  has_connections :: bool
  has_theta_spike :: bool
  has_asc :: bool
  has_theta_voltage :: bool

definition n_receptors :: "'d Parameters \<Rightarrow> nat" where
  "n_receptors p = length (tau_syn p)"

subsection \<open>\<open>struct State_\<close>\<close>

record 'd State =
  threshold :: 'd
  threshold_spike :: 'd
  threshold_voltage :: 'd
  ASCurrents :: "'d list"
  ASCurrents_sum :: 'd
  refractory_steps :: int
  S_y :: "'d list"

text \<open>
  \<open>enum StateVecElems\<close>: the enumerators count up from \<open>V_M = 0\<close>. The enumerator \<open>I\<close> is
  written \<open>I_elem\<close>.
\<close>

definition V_M :: nat where "V_M = 0"
definition I_elem :: nat where "I_elem = 1"
definition ASC_SUM :: nat where "ASC_SUM = 2"
definition TH :: nat where "TH = 3"
definition TH_SPK :: nat where "TH_SPK = 4"
definition TH_VLT :: nat where "TH_VLT = 5"
definition DG_SYN :: nat where "DG_SYN = 6"
definition G_SYN :: nat where "G_SYN = 7"
definition STATE_VECTOR_MIN_SIZE :: nat where "STATE_VECTOR_MIN_SIZE = 8"

definition NUMBER_OF_FIXED_STATES_ELEMENTS :: nat where
  "NUMBER_OF_FIXED_STATES_ELEMENTS = 1"

definition NUMBER_OF_RECORDABLES_ELEMENTS :: nat where
  "NUMBER_OF_RECORDABLES_ELEMENTS = DG_SYN - 1"

definition NUMBER_OF_STATES_ELEMENTS_PER_RECEPTOR :: nat where
  "NUMBER_OF_STATES_ELEMENTS_PER_RECEPTOR = 2"

subsection \<open>\<open>struct Variables_\<close> and \<open>struct Buffers_\<close>\<close>

record 'd Variables =
  RefractoryCounts :: int
  theta_spike_decay_rate :: 'd
  theta_spike_refractory_decay_rate :: 'd
  theta_voltage_decay_rate_inverse :: 'd
  potential_decay_rate :: 'd
  abpara_ratio_voltage :: 'd
  asc_decay_rates :: "'d list"
  asc_stable_coeff :: "'d list"
  asc_refractory_decay_rates :: "'d list"
  phi :: 'd
  CondInitialValues :: "'d list"

text \<open>
  Of \<open>Buffers_\<close> the model keeps the injected current \<open>I_\<close> and the data logger, whose state
  is of a type \<open>'l\<close> the header does not define. The ring buffers and the solver's
  workspace are read by no function that is defined in the header.
\<close>

record ('d, 'l) Buffers =
  B_I :: 'd
  logger :: 'l

subsection \<open>The neuron\<close>

text \<open>
  \<open>recordablesMap_\<close> maps a recordable's name to its access functor. A
  \<open>DataAccessFunctor\<close> made by \<open>get_data_access_functor (elem)\<close> is the element number it
  will hand to \<open>get_state_element\<close>, so the map is from names to element numbers.
  \<open>archiving\<close> is the state of the base class \<open>Archiving_Node\<close>, of a type \<open>'a\<close>.
\<close>

type_synonym RecordablesMap = "string \<rightharpoonup> nat"

record ('d, 'l, 'a) glif_cond =
  node_P :: "'d Parameters"
  node_S :: "'d State"
  node_V :: "'d Variables"
  node_B :: "('d, 'l) Buffers"
  recordablesMap :: RecordablesMap
  archiving :: 'a

section \<open>Reading a recordable: \<open>get_state_element\<close>\<close>

text \<open>
  \<open>std::vector::operator[]\<close> does not check its index: a read past the end has no defined
  result. \<open>vec_at\<close> makes that case the value \<open>None\<close>.
\<close>

definition vec_at :: "'x list \<Rightarrow> nat \<Rightarrow> 'x option" where
  "vec_at xs i = (if i < length xs then Some (xs ! i) else None)"

definition get_state_element :: "('d::plus, 'l, 'a) glif_cond \<Rightarrow> nat \<Rightarrow> 'd option" where
  "get_state_element node elem =
     (if elem = V_M then
        map_option (\<lambda>v. v + E_L (node_P node)) (vec_at (S_y (node_S node)) elem)
      else if elem = I_elem then Some (B_I (node_B node))
      else if elem = ASC_SUM then Some (ASCurrents_sum (node_S node))
      else if elem = TH then Some (threshold (node_S node) + E_L (node_P node))
      else if elem = TH_SPK then Some (threshold_spike (node_S node))
      else if elem = TH_VLT then Some (threshold_voltage (node_S node))
      else vec_at (S_y (node_S node)) (elem - NUMBER_OF_RECORDABLES_ELEMENTS))"


section \<open>Connection tests: \<open>handles_test_event\<close>\<close>

text \<open>
  A handler returns the port it grants or throws. The model returns both the outcome
  (\<open>Inl\<close> the exception) and the neuron as the call leaves it, so that what a throwing
  call has changed is part of the result.
\<close>

definition handles_test_event_CurrentEvent ::
  "('d, 'l, 'a) glif_cond \<Rightarrow> int \<Rightarrow> (error + int) \<times> ('d, 'l, 'a) glif_cond" where
  "handles_test_event_CurrentEvent node receptor_type =
     (if receptor_type \<noteq> 0 then (Inl (UnknownReceptorType receptor_type), node)
      else (Inr 0, node))"

text \<open>
  The overload for a data-logging request ends in
  \<open>B_.logger_.connect_logging_device (dlr, recordablesMap_)\<close>. The logger is the kernel's;
  it is the argument \<open>connect_logging_device\<close>, which may itself throw and leaves the
  logger in a state of its own choosing.
\<close>

definition handles_test_event_DataLoggingRequest ::
  "('r \<Rightarrow> RecordablesMap \<Rightarrow> 'l \<Rightarrow> (error + int) \<times> 'l) \<Rightarrow> ('d, 'l, 'a) glif_cond \<Rightarrow> 'r \<Rightarrow> int
     \<Rightarrow> (error + int) \<times> ('d, 'l, 'a) glif_cond" where
  "handles_test_event_DataLoggingRequest connect_logging_device node dlr receptor_type =
     (if receptor_type \<noteq> 0 then (Inl (UnknownReceptorType receptor_type), node)
      else
        (case connect_logging_device dlr (recordablesMap node) (logger (node_B node)) of
           (res, l) \<Rightarrow> (res, node\<lparr>node_B := (node_B node)\<lparr>logger := l\<rparr>\<rparr>)))"

text \<open>
  Modelled from the spec: the overload \<open>handles_test_event (SpikeEvent&, port)\<close> is declared
  in the header and defined elsewhere. The spec's words are "a weighted spike addressed to
  a specific receptor port index (port must be within [0, receptor_count))" and, of an
  out-of-range receptor port on event delivery, "reported synchronously to the caller
  \<dots> with the prior valid configuration left untouched".
\<close>

definition handles_test_event_SpikeEvent ::
  "('d, 'l, 'a) glif_cond \<Rightarrow> int \<Rightarrow> (error + int) \<times> ('d, 'l, 'a) glif_cond" where
  "handles_test_event_SpikeEvent node receptor_type =
     (if 0 \<le> receptor_type \<and> receptor_type < int (n_receptors (node_P node))
      then (Inr receptor_type, node)
      else (Inl (ReceptorPortOutOfRange receptor_type), node))"

section \<open>Changing the status: \<open>set_status\<close>\<close>

text \<open>
  Modelled from the spec: registration, the \<open>insert\<close> of the registry class
  \<open>DynamicRecordablesMap\<close>. The class is the kernel's; the header only calls its \<open>insert\<close>
  and \<open>erase\<close>. The spec asks of it "a stable (name \<rightarrow> accessor)
  registration/deregistration contract". Registering a name that is already held keeps the
  binding that is there, and removing a name that is not held is the error \<open>KeyError\<close>:
  the theorems below are stated where neither happens, so they do not rest on these two
  choices.
\<close>

definition rm_insert :: "string \<Rightarrow> nat \<Rightarrow> RecordablesMap \<Rightarrow> RecordablesMap" where
  "rm_insert name f rm = (case rm name of None \<Rightarrow> rm(name \<mapsto> f) | Some _ \<Rightarrow> rm)"

text \<open>
  Modelled from the spec: deregistration, the \<open>erase\<close> of the registry class, which the
  header calls and does not define.
\<close>

definition rm_erase :: "string \<Rightarrow> RecordablesMap \<Rightarrow> error + RecordablesMap" where
  "rm_erase name rm = (case rm name of None \<Rightarrow> Inl (KeyError name) | Some _ \<Rightarrow> Inr (rm(name := None)))"

text \<open>
  The two loops of \<open>set_status\<close>. \<open>get_g_receptor_name\<close> is declared in the header and
  defined elsewhere; it is an argument. The first loop registers, for each new receptor,
  the functor of element \<open>G_SYN + receptor * NUMBER_OF_STATES_ELEMENTS_PER_RECEPTOR\<close>. The
  second removes the names of the receptors that are gone; an exception of \<open>erase\<close> leaves
  the loop with the names removed so far.
\<close>

function set_status_insert_loop ::
  "(nat \<Rightarrow> string) \<Rightarrow> nat \<Rightarrow> nat \<Rightarrow> RecordablesMap \<Rightarrow> RecordablesMap" where
  "set_status_insert_loop get_g_receptor_name receptor n rm =
     (if receptor < n then
        let elem = G_SYN + receptor * NUMBER_OF_STATES_ELEMENTS_PER_RECEPTOR
        in set_status_insert_loop get_g_receptor_name (Suc receptor) n
             (rm_insert (get_g_receptor_name receptor) elem rm)
      else rm)"
  by pat_completeness auto
termination
  by (relation "measure (\<lambda>(g, receptor, n, rm). n - receptor)") auto

function set_status_erase_loop ::
  "(nat \<Rightarrow> string) \<Rightarrow> nat \<Rightarrow> nat \<Rightarrow> RecordablesMap \<Rightarrow> error option \<times> RecordablesMap" where
  "set_status_erase_loop get_g_receptor_name receptor n rm =
     (if receptor < n then
        (case rm_erase (get_g_receptor_name receptor) rm of
           Inl e \<Rightarrow> (Some e, rm)
         | Inr rm' \<Rightarrow> set_status_erase_loop get_g_receptor_name (Suc receptor) n rm')
      else (None, rm))"
  by pat_completeness auto
termination
  by (relation "measure (\<lambda>(g, receptor, n, rm). n - receptor)") auto

text \<open>
  \<open>set_status\<close>. \<open>Parameters_::set\<close>, \<open>State_::set\<close> and \<open>Archiving_Node::set_status\<close> are
  arguments: the first works on the copy \<open>ptmp\<close> and returns \<open>delta_EL\<close>, the second works on
  the copy \<open>stmp\<close>, and either may throw; the third works on the base class in place, so
  what it returns with an exception is the base class as it left it. The dictionary is of
  any type \<open>'k\<close>. The result is the exception, if any, and the neuron after the call.
\<close>

definition set_status ::
  "('k \<Rightarrow> 'd Parameters \<Rightarrow> error + 'd Parameters \<times> 'd)
     \<Rightarrow> ('k \<Rightarrow> 'd Parameters \<Rightarrow> 'd \<Rightarrow> 'd State \<Rightarrow> error + 'd State)
     \<Rightarrow> ('k \<Rightarrow> 'a \<Rightarrow> error option \<times> 'a)
     \<Rightarrow> (nat \<Rightarrow> string)
     \<Rightarrow> 'k \<Rightarrow> ('d, 'l, 'a) glif_cond \<Rightarrow> error option \<times> ('d, 'l, 'a) glif_cond" where
  "set_status Parameters_set State_set Archiving_Node_set_status get_g_receptor_name d node =
     (case Parameters_set d (node_P node) of
        Inl e \<Rightarrow> (Some e, node)
      | Inr (ptmp, delta_EL) \<Rightarrow>
          (case State_set d ptmp delta_EL (node_S node) of
             Inl e \<Rightarrow> (Some e, node)
           | Inr stmp \<Rightarrow>
               (case Archiving_Node_set_status d (archiving node) of
                  (Some e, arch) \<Rightarrow> (Some e, node\<lparr>archiving := arch\<rparr>)
                | (None, arch) \<Rightarrow>
                    (let node1 = node\<lparr>archiving := arch\<rparr> in
                     if n_receptors ptmp > n_receptors (node_P node) then
                       (None, node1
                          \<lparr>recordablesMap :=
                             set_status_insert_loop get_g_receptor_name
                               (n_receptors (node_P node)) (n_receptors ptmp) (recordablesMap node),
                           node_P := ptmp, node_S := stmp\<rparr>)
                     else if n_receptors ptmp < n_receptors (node_P node) then
                       (case set_status_erase_loop get_g_receptor_name
                               (n_receptors ptmp) (n_receptors (node_P node)) (recordablesMap node) of
                          (Some e, rm) \<Rightarrow> (Some e, node1\<lparr>recordablesMap := rm\<rparr>)
                        | (None, rm) \<Rightarrow>
                            (None, node1\<lparr>recordablesMap := rm, node_P := ptmp, node_S := stmp\<rparr>))
                     else (None, node1\<lparr>node_P := ptmp, node_S := stmp\<rparr>)))))"

text \<open>
  The registry is in step with \<open>n\<close> receptors, as far as the receptors below \<open>k\<close> go, when it
  holds the name of each receptor below \<open>n\<close>, bound to that receptor's conductance element,
  and none of the names of the receptors from \<open>n\<close> on.
\<close>

definition registry_in_step :: "(nat \<Rightarrow> string) \<Rightarrow> nat \<Rightarrow> nat \<Rightarrow> RecordablesMap \<Rightarrow> bool" where
  "registry_in_step get_g_receptor_name k n rm =
     list_all
       (\<lambda>r. rm (get_g_receptor_name r) =
              (if r < n then Some (G_SYN + r * NUMBER_OF_STATES_ELEMENTS_PER_RECEPTOR) else None))
       [0..<k]"


section \<open>Validating parameters\<close>

text \<open>
  Modelled from the spec: the status dictionary. \<open>DictionaryDatum\<close> is the kernel's type; the
  spec describes it as "a mapping from named fields to typed values (scalars and
  variable-length numeric arrays), supporting partial get and partial, all-or-nothing
  validated set". The fields are the entries the header's user documentation lists under
  "The following parameters can be set in the status dictionary", each present or absent.
\<close>

record 'd DictionaryDatum =
  d_V_m :: "'d option"
  d_V_th :: "'d option"
  d_g :: "'d option"
  d_E_L :: "'d option"
  d_C_m :: "'d option"
  d_t_ref :: "'d option"
  d_V_reset :: "'d option"
  d_th_spike_add :: "'d option"
  d_th_spike_decay :: "'d option"
  d_voltage_reset_fraction :: "'d option"
  d_voltage_reset_add :: "'d option"
  d_asc_init :: "'d list option"
  d_asc_decay :: "'d list option"
  d_asc_amps :: "'d list option"
  d_asc_r :: "'d list option"
  d_th_voltage_index :: "'d option"
  d_th_voltage_decay :: "'d option"
  d_tau_syn :: "'d list option"
  d_E_rev :: "'d list option"
  d_spike_dependent_threshold :: "bool option"
  d_after_spike_currents :: "bool option"
  d_adapting_threshold :: "bool option"

text \<open>
  Modelled from the spec: the dictionary with no entry, which updates nothing.
\<close>

definition empty_dict :: "'d DictionaryDatum" where
  "empty_dict =
     \<lparr>d_V_m = None, d_V_th = None, d_g = None, d_E_L = None, d_C_m = None, d_t_ref = None,
      d_V_reset = None, d_th_spike_add = None, d_th_spike_decay = None,
      d_voltage_reset_fraction = None, d_voltage_reset_add = None, d_asc_init = None,
      d_asc_decay = None, d_asc_amps = None, d_asc_r = None, d_th_voltage_index = None,
      d_th_voltage_decay = None, d_tau_syn = None, d_E_rev = None,
      d_spike_dependent_threshold = None, d_after_spike_currents = None,
      d_adapting_threshold = None\<rparr>"

text \<open>
  Modelled from the spec: the overlay of one field, "a partial update to any subset of
  fields": the entry's value where the dictionary has the entry, the current value where
  it has not.
\<close>

definition updateValue :: "'x option \<Rightarrow> 'x \<Rightarrow> 'x" where
  "updateValue entry x = (case entry of None \<Rightarrow> x | Some v \<Rightarrow> v)"

text \<open>
  Modelled from the spec: \<open>Parameters_::set\<close> is declared in the header and defined
  elsewhere. The spec: it "accepts a partial update to any subset of fields; constructs a
  full candidate parameter set by overlaying onto the current one". \<open>V_m\<close> is an entry of
  the state, not of the parameters.
\<close>

definition Parameters_overlay :: "'d DictionaryDatum \<Rightarrow> 'd Parameters \<Rightarrow> 'd Parameters" where
  "Parameters_overlay d p =
     p\<lparr>P_G := updateValue (d_g d) (P_G p),
       E_L := updateValue (d_E_L d) (E_L p),
       th_inf := updateValue (d_V_th d) (th_inf p),
       C_m := updateValue (d_C_m d) (C_m p),
       t_ref := updateValue (d_t_ref d) (t_ref p),
       V_reset := updateValue (d_V_reset d) (V_reset p),
       th_spike_add := updateValue (d_th_spike_add d) (th_spike_add p),
       th_spike_decay := updateValue (d_th_spike_decay d) (th_spike_decay p),
       voltage_reset_fraction := updateValue (d_voltage_reset_fraction d) (voltage_reset_fraction p),
       voltage_reset_add := updateValue (d_voltage_reset_add d) (voltage_reset_add p),
       th_voltage_index := updateValue (d_th_voltage_index d) (th_voltage_index p),
       th_voltage_decay := updateValue (d_th_voltage_decay d) (th_voltage_decay p),
       asc_init := updateValue (d_asc_init d) (asc_init p),
       asc_decay := updateValue (d_asc_decay d) (asc_decay p),
       asc_amps := updateValue (d_asc_amps d) (asc_amps p),
       asc_r := updateValue (d_asc_r d) (asc_r p),
       tau_syn := updateValue (d_tau_syn d) (tau_syn p),
       E_rev := updateValue (d_E_rev d) (E_rev p),
       has_theta_spike := updateValue (d_spike_dependent_threshold d) (has_theta_spike p),
       has_asc := updateValue (d_after_spike_currents d) (has_asc p),
       has_theta_voltage := updateValue (d_adapting_threshold d) (has_theta_voltage p)\<rparr>"

text \<open>
  The settings of (\<open>spike_dependent_threshold\<close>, \<open>after_spike_currents\<close>,
  \<open>adapting_threshold\<close>) for GLIF models 1 to 5, as the header's user documentation lists
  them ("Other combinations of these parameters will not be supported").
\<close>

definition glif_model_settings :: "(bool \<times> bool \<times> bool) list" where
  "glif_model_settings =
     [(False, False, False), (True, False, False), (False, True, False),
      (True, True, False), (True, True, True)]"

text \<open>
  Modelled from the spec: "the three-flag combination" of a parameter set, in the order
  of the header's documentation.
\<close>

definition mechanism_flags :: "'d Parameters \<Rightarrow> bool \<times> bool \<times> bool" where
  "mechanism_flags p = (has_theta_spike p, has_asc p, has_theta_voltage p)"

text \<open>
  Modelled from the spec: the array-length-equality invariants that \<open>Parameters_::set\<close>
  checks, "the four after-spike-current arrays have identical length; the two per-receptor
  arrays have identical length".
\<close>

definition array_lengths_agree :: "'d Parameters \<Rightarrow> bool" where
  "array_lengths_agree p \<longleftrightarrow>
     length (asc_decay p) = length (asc_init p) \<and> length (asc_amps p) = length (asc_init p) \<and>
     length (asc_r p) = length (asc_init p) \<and> length (E_rev p) = length (tau_syn p)"

text \<open>
  Modelled from the spec: the validation of \<open>Parameters_::set\<close>. The spec: it "rejects
  (without mutating visible state) if: any required array-length-equality invariant is
  violated, if the three-flag combination is not one of the five legal tuples, or if a
  rounded refractory-step count would be negative", and it "returns/propagates a potential
  shift in resting potential". How a duration in ms is rounded to steps is the kernel's; it
  is the argument \<open>ms_to_steps\<close>. The header's comment on the call names the exception:
  "throws if BadProperty".
\<close>

definition Parameters_set ::
  "('d \<Rightarrow> int) \<Rightarrow> 'd DictionaryDatum \<Rightarrow> 'd::minus Parameters \<Rightarrow> error + 'd Parameters \<times> 'd" where
  "Parameters_set ms_to_steps d p =
     (let ptmp = Parameters_overlay d p in
      if \<not> array_lengths_agree ptmp then Inl BadProperty
      else if mechanism_flags ptmp \<notin> set glif_model_settings then Inl BadProperty
      else if ms_to_steps (t_ref ptmp) < 0 then Inl BadProperty
      else Inr (ptmp, E_L ptmp - E_L p))"

section \<open>The state vector\<close>

text \<open>
  The comment on \<open>StateVecElems\<close>: "y only includes state of V_M and DG_SYN, G_SYN; repeat
  DG_SYN, G_SYN if more receptors". So in \<open>y_\<close> the pair of receptor \<open>r\<close> stands after the
  fixed elements and the pairs of the receptors before it.
\<close>

definition y_DG :: "nat \<Rightarrow> nat" where
  "y_DG r = NUMBER_OF_FIXED_STATES_ELEMENTS + r * NUMBER_OF_STATES_ELEMENTS_PER_RECEPTOR"

definition y_G :: "nat \<Rightarrow> nat" where
  "y_G r = NUMBER_OF_FIXED_STATES_ELEMENTS + r * NUMBER_OF_STATES_ELEMENTS_PER_RECEPTOR + 1"

text \<open>
  Modelled from the spec: the length of the state vector for a parameter set. The
  constructor of \<open>State_\<close> and the resizing of \<open>y_\<close> are not in the header; the spec gives
  the length as "1 + 2\<sqdot>receptor_count", which in the header's constants is the fixed
  elements and two elements for each receptor.
\<close>

definition state_vector_size :: "'d Parameters \<Rightarrow> nat" where
  "state_vector_size p =
     NUMBER_OF_FIXED_STATES_ELEMENTS + NUMBER_OF_STATES_ELEMENTS_PER_RECEPTOR * n_receptors p"

text \<open>
  Modelled from the spec: the state vector of a new state, "created with a
  receptor-count-dependent length at construction/parameter-apply time, values initialized
  to rest (zero relative voltage, zero conductances)".
\<close>

definition State_y_new :: "'d Parameters \<Rightarrow> 'd::zero list" where
  "State_y_new p = replicate (state_vector_size p) 0"

text \<open>
  Modelled from the spec: the state vector after a change of the receptor count, "on
  receptor-count decrease, the trailing per-receptor pairs are truncated; on increase, new
  pairs are appended initialized to zero".
\<close>

definition State_y_resize :: "'d Parameters \<Rightarrow> 'd::zero list \<Rightarrow> 'd list" where
  "State_y_resize p y =
     take (state_vector_size p) y @ replicate (state_vector_size p - length y) 0"


section \<open>A neuron to evaluate on\<close>

text \<open>
  A neuron with two receptors and the settings of GLIF model 5, over the reals, and the
  names \<open>g_1\<close>, \<open>g_2\<close>, \<dots> for the conductances of receptors 0, 1, \<dots>
\<close>

definition example_P :: "real Parameters" where
  "example_P =
     \<lparr>P_G = 9.43, E_L = -78.85, th_inf = -51.68, C_m = 58.72, t_ref = 3.75, V_reset = -78.85,
      th_spike_add = 0.37, th_spike_decay = 0.009, voltage_reset_fraction = 0.2,
      voltage_reset_add = 18.51, th_voltage_index = 0.005, th_voltage_decay = 0.09,
      asc_init = [0, 0], asc_decay = [0.003, 0.1], asc_amps = [-9.18, -198.94], asc_r = [1, 1],
      tau_syn = [0.2, 2], E_rev = [0, -85], has_connections = False, has_theta_spike = True,
      has_asc = True, has_theta_voltage = True\<rparr>"

definition example_S :: "real State" where
  "example_S =
     \<lparr>threshold = 27.17, threshold_spike = 0, threshold_voltage = 0, ASCurrents = [0, 0],
      ASCurrents_sum = 0, refractory_steps = 0, S_y = [0, 0, 0, 0, 0]\<rparr>"

definition example_V :: "real Variables" where
  "example_V =
     \<lparr>RefractoryCounts = 38, theta_spike_decay_rate = 0.999,
      theta_spike_refractory_decay_rate = 0.967, theta_voltage_decay_rate_inverse = 1.009,
      potential_decay_rate = 0.984, abpara_ratio_voltage = 0.056,
      asc_decay_rates = [0.9997, 0.99], asc_stable_coeff = [0.9998, 0.995],
      asc_refractory_decay_rates = [0.989, 0.687], phi = 0.054, CondInitialValues = [13.59, 1.359]\<rparr>"

text \<open>
  A number in decimal digits, for the names of the example; \<open>get_g_receptor_name\<close> itself
  is an argument of \<open>set_status\<close> above.
\<close>

fun decimal :: "nat \<Rightarrow> string" where
  "decimal n =
     (if n < 10 then [''0123456789'' ! n]
      else decimal (n div 10) @ [''0123456789'' ! (n mod 10)])"

definition example_receptor_name :: "nat \<Rightarrow> string" where
  "example_receptor_name receptor = ''g_'' @ decimal (Suc receptor)"

definition example_node :: "(real, nat, unit) glif_cond" where
  "example_node =
     \<lparr>node_P = example_P, node_S = example_S, node_V = example_V,
      node_B = \<lparr>B_I = 0, logger = 0\<rparr>,
      recordablesMap = [''V_m'' \<mapsto> V_M, ''g_1'' \<mapsto> 7, ''g_2'' \<mapsto> 9],
      archiving = ()\<rparr>"

text \<open>
  Steps of 0.1 ms, a duration rounded to the nearest step.
\<close>

definition example_ms_to_steps :: "real \<Rightarrow> int" where
  "example_ms_to_steps t = \<lfloor>t * 10 + 1 / 2\<rfloor>"


section \<open>Theorems\<close>

subsection \<open>Auxiliary facts\<close>

lemmas StateVecElems_defs =
  V_M_def I_elem_def ASC_SUM_def TH_def TH_SPK_def TH_VLT_def DG_SYN_def G_SYN_def
  STATE_VECTOR_MIN_SIZE_def NUMBER_OF_FIXED_STATES_ELEMENTS_def
  NUMBER_OF_RECORDABLES_ELEMENTS_def NUMBER_OF_STATES_ELEMENTS_PER_RECEPTOR_def

declare set_status_insert_loop.simps [simp del]
declare set_status_erase_loop.simps [simp del]
declare decimal.simps [simp del]

lemma insert_loop_keeps:
  "rm k = Some v \<Longrightarrow> set_status_insert_loop g a b rm k = Some v"
proof (induction g a b rm rule: set_status_insert_loop.induct)
  case (1 g receptor n rm)
  show ?case
  proof (cases "receptor < n")
    case True
    have "rm_insert (g receptor) (G_SYN + receptor * NUMBER_OF_STATES_ELEMENTS_PER_RECEPTOR) rm k = Some v"
      using "1.prems" by (auto simp: rm_insert_def split: option.splits)
    with "1.IH" True show ?thesis
      by (subst set_status_insert_loop.simps) (simp add: Let_def)
  next
    case False
    with "1.prems" show ?thesis
      by (subst set_status_insert_loop.simps) simp
  qed
qed

lemma insert_loop_other:
  "k \<notin> g ` {a..<b} \<Longrightarrow> set_status_insert_loop g a b rm k = rm k"
proof (induction g a b rm rule: set_status_insert_loop.induct)
  case (1 g receptor n rm)
  show ?case
  proof (cases "receptor < n")
    case True
    from "1.prems" True have ne: "k \<noteq> g receptor" by auto
    from "1.prems" have "k \<notin> g ` {Suc receptor..<n}" by auto
    with "1.IH" True
    have "set_status_insert_loop g (Suc receptor) n
            (rm_insert (g receptor) (G_SYN + receptor * NUMBER_OF_STATES_ELEMENTS_PER_RECEPTOR) rm) k
          = rm_insert (g receptor) (G_SYN + receptor * NUMBER_OF_STATES_ELEMENTS_PER_RECEPTOR) rm k"
      by simp
    also have "\<dots> = rm k"
      using ne by (simp add: rm_insert_def split: option.splits)
    finally show ?thesis
      using True by (subst set_status_insert_loop.simps) (simp add: Let_def)
  next
    case False
    then show ?thesis
      by (subst set_status_insert_loop.simps) simp
  qed
qed

lemma insert_loop_new:
  "inj_on g {a..<b} \<Longrightarrow> r \<in> {a..<b} \<Longrightarrow> rm (g r) = None
     \<Longrightarrow> set_status_insert_loop g a b rm (g r)
           = Some (G_SYN + r * NUMBER_OF_STATES_ELEMENTS_PER_RECEPTOR)"
proof (induction g a b rm rule: set_status_insert_loop.induct)
  case (1 g receptor n rm)
  from "1.prems" have lt: "receptor < n" by auto
  let ?rm = "rm_insert (g receptor) (G_SYN + receptor * NUMBER_OF_STATES_ELEMENTS_PER_RECEPTOR) rm"
  have unfold: "set_status_insert_loop g receptor n rm (g r)
      = set_status_insert_loop g (Suc receptor) n ?rm (g r)"
    using lt by (subst set_status_insert_loop.simps) (simp add: Let_def)
  show ?case
  proof (cases "r = receptor")
    case True
    have "?rm (g r) = Some (G_SYN + r * NUMBER_OF_STATES_ELEMENTS_PER_RECEPTOR)"
      using True "1.prems"(3) by (simp add: rm_insert_def)
    then show ?thesis
      unfolding unfold by (rule insert_loop_keeps)
  next
    case False
    with "1.prems" have r: "r \<in> {Suc receptor..<n}" by auto
    have inj: "inj_on g {Suc receptor..<n}"
      using "1.prems"(1) by (rule inj_on_subset) auto
    have "g r \<noteq> g receptor"
      using "1.prems"(1,2) False lt by (auto simp: inj_on_def)
    then have "?rm (g r) = None"
      using "1.prems"(3) by (simp add: rm_insert_def split: option.splits)
    with "1.IH" [OF lt refl inj r] show ?thesis
      unfolding unfold by simp
  qed
qed

lemma erase_loop_ok:
  "inj_on g {a..<b} \<Longrightarrow> \<forall>r\<in>{a..<b}. rm (g r) \<noteq> None
     \<Longrightarrow> set_status_erase_loop g a b rm = (None, \<lambda>k. if k \<in> g ` {a..<b} then None else rm k)"
proof (induction g a b rm rule: set_status_erase_loop.induct)
  case (1 g receptor n rm)
  show ?case
  proof (cases "receptor < n")
    case True
    then obtain v where v: "rm (g receptor) = Some v"
      using "1.prems"(2) by force
    let ?rm = "rm(g receptor := None)"
    have er: "rm_erase (g receptor) rm = Inr ?rm"
      using v by (simp add: rm_erase_def)
    have inj: "inj_on g {Suc receptor..<n}"
      using "1.prems"(1) by (rule inj_on_subset) auto
    have pres: "\<forall>r\<in>{Suc receptor..<n}. ?rm (g r) \<noteq> None"
    proof
      fix r assume r: "r \<in> {Suc receptor..<n}"
      then have "g r \<noteq> g receptor"
        using "1.prems"(1) True by (auto dest!: inj_onD [where x = r and y = receptor])
      moreover have "rm (g r) \<noteq> None" using r "1.prems"(2) by auto
      ultimately show "?rm (g r) \<noteq> None" by simp
    qed
    have "set_status_erase_loop g receptor n rm = set_status_erase_loop g (Suc receptor) n ?rm"
      using True er by (subst set_status_erase_loop.simps) simp
    also have "\<dots> = (None, \<lambda>k. if k \<in> g ` {Suc receptor..<n} then None else ?rm k)"
      using "1.IH" [OF True er inj pres] .
    also have "(\<lambda>k. if k \<in> g ` {Suc receptor..<n} then None else ?rm k)
             = (\<lambda>k. if k \<in> g ` {receptor..<n} then None else rm k)"
    proof
      fix k
      have "{receptor..<n} = insert receptor {Suc receptor..<n}"
        using True by auto
      then show "(if k \<in> g ` {Suc receptor..<n} then None else ?rm k)
               = (if k \<in> g ` {receptor..<n} then None else rm k)"
        by auto
    qed
    finally show ?thesis .
  next
    case False
    then show ?thesis
      by (subst set_status_erase_loop.simps) auto
  qed
qed


lemma registry_in_step_iff:
  "registry_in_step g k n rm
     \<longleftrightarrow> (\<forall>r<k. rm (g r) = (if r < n then Some (G_SYN + r * NUMBER_OF_STATES_ELEMENTS_PER_RECEPTOR) else None))"
  by (auto simp: registry_in_step_def list_all_iff)

lemma card_receptor_names:
  "inj_on g {..<k} \<Longrightarrow> b \<le> k \<Longrightarrow> card (g ` {a..<b}) = b - a"
proof -
  assume inj: "inj_on g {..<k}" and le: "b \<le> k"
  have "inj_on g {a..<b}"
    using inj by (rule inj_on_subset) (use le in auto)
  then show ?thesis by (simp add: card_image)
qed

lemmas example_defs =
  example_node_def example_P_def example_S_def example_V_def example_receptor_name_def
  example_ms_to_steps_def empty_dict_def

lemmas Parameters_set_defs =
  Parameters_set_def Parameters_overlay_def updateValue_def array_lengths_agree_def
  mechanism_flags_def glif_model_settings_def

lemma example_node_sel:
  "node_P example_node = example_P" "node_S example_node = example_S"
  "archiving example_node = ()"
  by (simp_all add: example_node_def)

lemma example_n_receptors: "n_receptors (node_P example_node) = 2"
  by (simp add: example_defs n_receptors_def)

lemma example_names_apart: "inj_on example_receptor_name {..<3}"
  by (simp add: inj_on_def example_receptor_name_def decimal.simps lessThan_nat_numeral lessThan_Suc)

lemma example_registry: "registry_in_step example_receptor_name 3 2 (recordablesMap example_node)"
  by (simp add: registry_in_step_def example_defs decimal.simps upt_conv_Cons V_M_def G_SYN_def
        NUMBER_OF_STATES_ELEMENTS_PER_RECEPTOR_def)

lemma example_grow:
  "Parameters_set example_ms_to_steps
     (empty_dict\<lparr>d_tau_syn := Some [0.2, 2, 5], d_E_rev := Some [0, - 85, - 70]\<rparr>)
     (node_P example_node)
   = Inr (example_P\<lparr>tau_syn := [0.2, 2, 5], E_rev := [0, - 85, - 70]\<rparr>, 0)"
  by (simp add: Parameters_set_defs example_defs)

lemma example_shrink:
  "Parameters_set example_ms_to_steps
     (empty_dict\<lparr>d_tau_syn := Some [0.2], d_E_rev := Some [0]\<rparr>) (node_P example_node)
   = Inr (example_P\<lparr>tau_syn := [0.2], E_rev := [0]\<rparr>, 0)"
  by (simp add: Parameters_set_defs example_defs)

lemma example_unchanged:
  "Parameters_set example_ms_to_steps empty_dict (node_P example_node) = Inr (example_P, 0)"
  by (simp add: Parameters_set_defs example_defs)

lemma example_bad_flags:
  "Parameters_set example_ms_to_steps
     (empty_dict\<lparr>d_after_spike_currents := Some False\<rparr>) (node_P example_node)
   = Inl BadProperty"
  by (simp add: Parameters_set_defs example_defs)

subsection \<open>\<open>set_status\<close>\<close>

lemma set_status_commit:
  assumes p: "pset d (node_P node) = Inr (ptmp, delta_EL)"
      and s: "sset d ptmp delta_EL (node_S node) = Inr stmp"
      and a: "aset d (archiving node) = (None, arch)"
      and n: "n = n_receptors (node_P node)" and m: "m = n_receptors ptmp"
      and inj: "inj_on g {..<max n m}"
      and step: "registry_in_step g (max n m) n (recordablesMap node)"
  shows "set_status pset sset aset g d node
         = (None, node\<lparr>archiving := arch,
                       recordablesMap :=
                         (\<lambda>k. if k \<in> g ` {n..<m} then Some (G_SYN + (inv_into {n..<m} g k) * NUMBER_OF_STATES_ELEMENTS_PER_RECEPTOR)
                              else if k \<in> g ` {m..<n} then None
                              else recordablesMap node k),
                       node_P := ptmp, node_S := stmp\<rparr>)"
proof -
  let ?rm = "recordablesMap node"
  have old: "\<And>r. r < max n m \<Longrightarrow>
      ?rm (g r) = (if r < n then Some (G_SYN + r * NUMBER_OF_STATES_ELEMENTS_PER_RECEPTOR) else None)"
    using step by (simp add: registry_in_step_iff)
  consider (grow) "n < m" | (shrink) "m < n" | (same) "m = n" by linarith
  then show ?thesis
  proof cases
    case grow
    have inj': "inj_on g {n..<m}"
      using inj by (rule inj_on_subset) (use grow in auto)
    have "set_status_insert_loop g n m ?rm
        = (\<lambda>k. if k \<in> g ` {n..<m} then Some (G_SYN + (inv_into {n..<m} g k) * NUMBER_OF_STATES_ELEMENTS_PER_RECEPTOR)
               else if k \<in> g ` {m..<n} then None else ?rm k)"
    proof
      fix k
      show "set_status_insert_loop g n m ?rm k
          = (if k \<in> g ` {n..<m} then Some (G_SYN + (inv_into {n..<m} g k) * NUMBER_OF_STATES_ELEMENTS_PER_RECEPTOR)
             else if k \<in> g ` {m..<n} then None else ?rm k)"
      proof (cases "k \<in> g ` {n..<m}")
        case True
        then obtain r where r: "r \<in> {n..<m}" "k = g r" by auto
        have "?rm (g r) = None" using old [of r] r by auto
        with insert_loop_new [OF inj' r(1)] r inj' show ?thesis by simp
      next
        case False
        with insert_loop_other [of k g n m ?rm] grow show ?thesis by simp
      qed
    qed
    with p s a n m grow show ?thesis
      by (simp add: set_status_def Let_def)
  next
    case shrink
    have inj': "inj_on g {m..<n}"
      using inj by (rule inj_on_subset) (use shrink in auto)
    have "\<forall>r\<in>{m..<n}. ?rm (g r) \<noteq> None"
      using old shrink by auto
    from erase_loop_ok [OF inj' this]
    have "set_status_erase_loop g m n ?rm
        = (None, \<lambda>k. if k \<in> g ` {n..<m} then Some (G_SYN + (inv_into {n..<m} g k) * NUMBER_OF_STATES_ELEMENTS_PER_RECEPTOR)
                     else if k \<in> g ` {m..<n} then None else ?rm k)"
      using shrink by simp
    with p s a n m shrink show ?thesis
      by (simp add: set_status_def Let_def)
  next
    case same
    then have "(\<lambda>k. if k \<in> g ` {n..<m} then Some (G_SYN + (inv_into {n..<m} g k) * NUMBER_OF_STATES_ELEMENTS_PER_RECEPTOR)
                     else if k \<in> g ` {m..<n} then None else ?rm k) = ?rm"
      by auto
    with p s a n m same show ?thesis
      by (simp add: set_status_def Let_def)
  qed
qed


text \<open>
  Claim C1. Validation accepts the three mechanism flags exactly when their combination
  is one of (F,F,F), (T,F,F), (F,T,F), (T,T,F), (T,T,T). If the flags of the candidate
  parameter set are any other combination, which is one of (F,T,T), (T,F,T), (F,F,T),
  \<open>Parameters_::set\<close> throws \<open>BadProperty\<close> and \<open>set_status\<close> ends with that exception and
  the neuron as it was. If they are one of the five, and the array lengths agree and the
  refractory step count is not negative, the candidate is accepted. Whatever is accepted
  has flags among the five.
\<close>

theorem mechanism_flags_validated:
  fixes node :: "('d::minus, 'l, 'a) glif_cond"
  shows "(mechanism_flags (Parameters_overlay d (node_P node))
            \<notin> {(False, False, False), (True, False, False), (False, True, False),
                (True, True, False), (True, True, True)} \<longrightarrow>
            Parameters_set ms_to_steps d (node_P node) = Inl BadProperty \<and>
            set_status (Parameters_set ms_to_steps) sset aset g d node = (Some BadProperty, node))
       \<and> (mechanism_flags (Parameters_overlay d (node_P node))
            \<in> {(False, False, False), (True, False, False), (False, True, False),
                (True, True, False), (True, True, True)} \<and>
          array_lengths_agree (Parameters_overlay d (node_P node)) \<and>
          0 \<le> ms_to_steps (t_ref (Parameters_overlay d (node_P node))) \<longrightarrow>
            Parameters_set ms_to_steps d (node_P node)
              = Inr (Parameters_overlay d (node_P node),
                     E_L (Parameters_overlay d (node_P node)) - E_L (node_P node)))
       \<and> (\<forall>ptmp delta_EL. Parameters_set ms_to_steps d (node_P node) = Inr (ptmp, delta_EL) \<longrightarrow>
            mechanism_flags ptmp
              \<in> {(False, False, False), (True, False, False), (False, True, False),
                  (True, True, False), (True, True, True)})
       \<and> (mechanism_flags (Parameters_overlay d (node_P node))
            \<in> {(False, True, True), (True, False, True), (False, False, True)} \<longrightarrow>
            set_status (Parameters_set ms_to_steps) sset aset g d node = (Some BadProperty, node))"
proof -
  let ?five = "{(False, False, False), (True, False, False), (False, True, False),
                (True, True, False), (True, True, True)}"
  have five: "set glif_model_settings = ?five"
    by (simp add: glif_model_settings_def)
  have reject: "Parameters_set ms_to_steps d (node_P node) = Inl BadProperty"
    if "mechanism_flags (Parameters_overlay d (node_P node)) \<notin> ?five"
    using that unfolding five [symmetric] by (simp add: Parameters_set_def Let_def)
  have untouched: "set_status (Parameters_set ms_to_steps) sset aset g d node = (Some BadProperty, node)"
    if "mechanism_flags (Parameters_overlay d (node_P node)) \<notin> ?five"
    using reject [OF that] by (simp add: set_status_def)
  have accept: "Parameters_set ms_to_steps d (node_P node)
              = Inr (Parameters_overlay d (node_P node),
                     E_L (Parameters_overlay d (node_P node)) - E_L (node_P node))"
    if "mechanism_flags (Parameters_overlay d (node_P node)) \<in> ?five \<and>
          array_lengths_agree (Parameters_overlay d (node_P node)) \<and>
          0 \<le> ms_to_steps (t_ref (Parameters_overlay d (node_P node)))"
    using that unfolding five [symmetric] by (simp add: Parameters_set_def Let_def)
  have only: "mechanism_flags ptmp \<in> ?five"
    if "Parameters_set ms_to_steps d (node_P node) = Inr (ptmp, delta_EL)" for ptmp delta_EL
    using that unfolding five [symmetric]
    by (auto simp: Parameters_set_def Let_def split: if_splits)
  have three: "mechanism_flags (Parameters_overlay d (node_P node)) \<notin> ?five"
    if "mechanism_flags (Parameters_overlay d (node_P node))
            \<in> {(False, True, True), (True, False, True), (False, False, True)}"
    using that by auto
  show ?thesis
    using reject untouched accept only three by (intro conjI allI impI) blast+
qed


theorem mechanism_flags_validated_witness:
  "mechanism_flags (Parameters_overlay (empty_dict\<lparr>d_after_spike_currents := Some False\<rparr>)
      (node_P example_node)) = (True, False, True)
   \<and> Parameters_set example_ms_to_steps (empty_dict\<lparr>d_after_spike_currents := Some False\<rparr>)
        (node_P example_node) = Inl BadProperty
   \<and> set_status (Parameters_set example_ms_to_steps) (\<lambda>d p delta_EL s. Inr s) (\<lambda>d a. (None, a))
        example_receptor_name (empty_dict\<lparr>d_after_spike_currents := Some False\<rparr>) example_node
       = (Some BadProperty, example_node)
   \<and> mechanism_flags (Parameters_overlay empty_dict (node_P example_node)) = (True, True, True)
   \<and> Parameters_set example_ms_to_steps empty_dict (node_P example_node)
       = Inr (Parameters_overlay empty_dict (node_P example_node),
              E_L (Parameters_overlay empty_dict (node_P example_node)) - E_L (node_P example_node))"
proof -
  let ?bad = "empty_dict\<lparr>d_after_spike_currents := Some False\<rparr> :: real DictionaryDatum"
  let ?ok = "\<lambda>(d :: real DictionaryDatum) (p :: real Parameters) (delta_EL :: real) (s :: real State).
               Inr s :: error + real State"
  let ?arch = "\<lambda>(d :: real DictionaryDatum) (a :: unit). (None :: error option, a)"
  have f1: "mechanism_flags (Parameters_overlay ?bad (node_P example_node)) = (True, False, True)"
    by (simp add: mechanism_flags_def Parameters_overlay_def updateValue_def example_defs)
  have f2: "mechanism_flags (Parameters_overlay empty_dict (node_P example_node)) = (True, True, True)"
    by (simp add: mechanism_flags_def Parameters_overlay_def updateValue_def example_defs)
  have l2: "array_lengths_agree (Parameters_overlay empty_dict (node_P example_node))"
    by (simp add: array_lengths_agree_def Parameters_overlay_def updateValue_def example_defs)
  have t2: "0 \<le> example_ms_to_steps (t_ref (Parameters_overlay empty_dict (node_P example_node)))"
    by (simp add: Parameters_overlay_def updateValue_def example_defs)
  note main = mechanism_flags_validated
      [where ms_to_steps = example_ms_to_steps and sset = ?ok and aset = ?arch
         and g = example_receptor_name and node = example_node]
  have "mechanism_flags (Parameters_overlay ?bad (node_P example_node))
          \<notin> {(False, False, False), (True, False, False), (False, True, False),
              (True, True, False), (True, True, True)}"
    unfolding f1 by simp
  with main [where d = ?bad, THEN conjunct1]
  have c1: "Parameters_set example_ms_to_steps ?bad (node_P example_node) = Inl BadProperty \<and>
            set_status (Parameters_set example_ms_to_steps) ?ok ?arch example_receptor_name ?bad
              example_node = (Some BadProperty, example_node)"
    by blast
  have "mechanism_flags (Parameters_overlay empty_dict (node_P example_node))
          \<in> {(False, False, False), (True, False, False), (False, True, False),
              (True, True, False), (True, True, True)}"
    unfolding f2 by simp
  with main [where d = empty_dict, THEN conjunct2, THEN conjunct1] l2 t2
  have c2: "Parameters_set example_ms_to_steps empty_dict (node_P example_node)
       = Inr (Parameters_overlay empty_dict (node_P example_node),
              E_L (Parameters_overlay empty_dict (node_P example_node)) - E_L (node_P example_node))"
    by blast
  from f1 c1 f2 c2 show ?thesis by blast
qed

text \<open>
  Claim C2. \<open>set_status\<close> is all-or-nothing. If the validation of the candidate parameters
  throws, or that of the candidate state, the call ends with that exception and the neuron
  is as it was before the call: parameters, state, registry and all. Whatever exception
  ends the call, \<open>P_\<close> and \<open>S_\<close> are the old ones. And where the call returns, both
  validations and the base class have succeeded, and \<open>P_\<close> and \<open>S_\<close> are the two temporaries.
\<close>

theorem set_status_all_or_nothing:
  fixes node :: "('d, 'l, 'a) glif_cond"
  shows "(\<forall>e. pset d (node_P node) = Inl e \<longrightarrow>
            set_status pset sset aset g d node = (Some e, node))
       \<and> (\<forall>ptmp delta_EL e.
            pset d (node_P node) = Inr (ptmp, delta_EL) \<and>
            sset d ptmp delta_EL (node_S node) = Inl e \<longrightarrow>
            set_status pset sset aset g d node = (Some e, node))
       \<and> (\<forall>e node'. set_status pset sset aset g d node = (Some e, node') \<longrightarrow>
            node_P node' = node_P node \<and> node_S node' = node_S node)
       \<and> (\<forall>node'. set_status pset sset aset g d node = (None, node') \<longrightarrow>
            (\<exists>ptmp delta_EL stmp.
               pset d (node_P node) = Inr (ptmp, delta_EL) \<and>
               sset d ptmp delta_EL (node_S node) = Inr stmp \<and>
               fst (aset d (archiving node)) = None \<and>
               node_P node' = ptmp \<and> node_S node' = stmp))"
proof (intro conjI allI impI)
  fix e assume "pset d (node_P node) = Inl e"
  then show "set_status pset sset aset g d node = (Some e, node)"
    by (simp add: set_status_def)
next
  fix ptmp delta_EL e
  assume "pset d (node_P node) = Inr (ptmp, delta_EL) \<and>
          sset d ptmp delta_EL (node_S node) = Inl e"
  then show "set_status pset sset aset g d node = (Some e, node)"
    by (simp add: set_status_def)
next
  fix e node'
  assume "set_status pset sset aset g d node = (Some e, node')"
  then show "node_P node' = node_P node" "node_S node' = node_S node"
    by (auto simp: set_status_def Let_def split: sum.splits prod.splits option.splits if_splits)
next
  fix node'
  assume "set_status pset sset aset g d node = (None, node')"
  then show "\<exists>ptmp delta_EL stmp.
               pset d (node_P node) = Inr (ptmp, delta_EL) \<and>
               sset d ptmp delta_EL (node_S node) = Inr stmp \<and>
               fst (aset d (archiving node)) = None \<and>
               node_P node' = ptmp \<and> node_S node' = stmp"
    by (auto simp: set_status_def Let_def split: sum.splits prod.splits option.splits if_splits)
qed

theorem set_status_all_or_nothing_witness:
  "set_status (Parameters_set example_ms_to_steps) (\<lambda>d p delta_EL s. Inr s) (\<lambda>d a. (None, a))
      example_receptor_name (empty_dict\<lparr>d_after_spike_currents := Some False\<rparr>) example_node
     = (Some BadProperty, example_node)
   \<and> set_status (Parameters_set example_ms_to_steps) (\<lambda>d p delta_EL s. Inl BadProperty)
        (\<lambda>d a. (None, a)) example_receptor_name empty_dict example_node
     = (Some BadProperty, example_node)
   \<and> fst (set_status (Parameters_set example_ms_to_steps) (\<lambda>d p delta_EL s. Inr s)
        (\<lambda>d a. (None, a)) example_receptor_name empty_dict example_node) = None
   \<and> node_P (snd (set_status (Parameters_set example_ms_to_steps) (\<lambda>d p delta_EL s. Inr s)
        (\<lambda>d a. (None, a)) example_receptor_name empty_dict example_node)) = example_P
   \<and> fst (set_status (Parameters_set example_ms_to_steps) (\<lambda>d p delta_EL s. Inr s)
        (\<lambda>d a. (Some BadProperty, a)) example_receptor_name empty_dict example_node)
       = Some BadProperty
   \<and> node_P (snd (set_status (Parameters_set example_ms_to_steps) (\<lambda>d p delta_EL s. Inr s)
        (\<lambda>d a. (Some BadProperty, a)) example_receptor_name empty_dict example_node))
       = node_P example_node"
proof -
  let ?pset = "Parameters_set example_ms_to_steps"
  let ?ok = "\<lambda>(d :: real DictionaryDatum) (p :: real Parameters) (delta_EL :: real) (s :: real State).
               Inr s :: error + real State"
  let ?bad = "\<lambda>(d :: real DictionaryDatum) (p :: real Parameters) (delta_EL :: real) (s :: real State).
               Inl BadProperty :: error + real State"
  let ?arch = "\<lambda>(d :: real DictionaryDatum) (a :: unit). (None :: error option, a)"
  let ?arch_bad = "\<lambda>(d :: real DictionaryDatum) (a :: unit). (Some BadProperty, a)"
  let ?g = example_receptor_name
  note split = set_status_all_or_nothing
  have c1: "set_status ?pset ?ok ?arch ?g (empty_dict\<lparr>d_after_spike_currents := Some False\<rparr>)
              example_node = (Some BadProperty, example_node)"
    using split [of ?pset "empty_dict\<lparr>d_after_spike_currents := Some False\<rparr>" example_node ?ok ?arch ?g]
      example_bad_flags by blast
  have "?pset empty_dict (node_P example_node) = Inr (example_P, 0) \<and>
        ?bad empty_dict example_P 0 (node_S example_node) = Inl BadProperty"
    using example_unchanged by simp
  then have c2: "set_status ?pset ?bad ?arch ?g empty_dict example_node = (Some BadProperty, example_node)"
    using split [of ?pset empty_dict example_node ?bad ?arch ?g] by blast
  have c3: "fst (set_status ?pset ?ok ?arch ?g empty_dict example_node) = None"
    using example_unchanged by (simp add: set_status_def Let_def example_node_sel)
  then have "set_status ?pset ?ok ?arch ?g empty_dict example_node
             = (None, snd (set_status ?pset ?ok ?arch ?g empty_dict example_node))"
    by (metis prod.collapse)
  then obtain ptmp delta_EL
    where "?pset empty_dict (node_P example_node) = Inr (ptmp, delta_EL)"
      and "node_P (snd (set_status ?pset ?ok ?arch ?g empty_dict example_node)) = ptmp"
    using split [of ?pset empty_dict example_node ?ok ?arch ?g] by blast
  then have c4: "node_P (snd (set_status ?pset ?ok ?arch ?g empty_dict example_node)) = example_P"
    using example_unchanged by simp
  have c5: "fst (set_status ?pset ?ok ?arch_bad ?g empty_dict example_node) = Some BadProperty"
    using example_unchanged by (simp add: set_status_def Let_def example_node_sel)
  then have "set_status ?pset ?ok ?arch_bad ?g empty_dict example_node
             = (Some BadProperty, snd (set_status ?pset ?ok ?arch_bad ?g empty_dict example_node))"
    by (metis prod.collapse)
  then have c6: "node_P (snd (set_status ?pset ?ok ?arch_bad ?g empty_dict example_node))
                 = node_P example_node"
    using split [of ?pset empty_dict example_node ?ok ?arch_bad ?g] by blast
  from c1 c2 c3 c4 c5 c6 show ?thesis by (intro conjI)
qed

text \<open>
  Claim C3. Take a \<open>set_status\<close> whose validations and base class succeed, that changes the
  number of receptors from \<open>n\<close> to \<open>m\<close>, with receptor names that are distinct for the
  receptors involved and a registry that is in step with the \<open>n\<close> receptors. The call
  returns, and then: each receptor from \<open>n\<close> up to \<open>m\<close> had no channel and has one now, under
  its name, reading element \<open>G_SYN + 2 * receptor\<close>; each receptor from \<open>m\<close> up to \<open>n\<close> had a
  channel and has none now; the channels of the receptors below both \<open>n\<close> and \<open>m\<close> are bound
  as before; every other name is bound as before; the names inserted are \<open>m - n\<close> many and
  the names erased \<open>n - m\<close> many, one for each index.
\<close>

theorem set_status_recordables_resize:
  assumes p: "pset d (node_P node) = Inr (ptmp, delta_EL)"
      and s: "sset d ptmp delta_EL (node_S node) = Inr stmp"
      and a: "aset d (archiving node) = (None, arch)"
      and n: "n = n_receptors (node_P node)" and m: "m = n_receptors ptmp"
      and inj: "inj_on g {..<max n m}"
      and step: "registry_in_step g (max n m) n (recordablesMap node)"
  shows "\<exists>node'. set_status pset sset aset g d node = (None, node')
      \<and> (\<forall>r. n \<le> r \<and> r < m \<longrightarrow>
             recordablesMap node (g r) = None \<and>
             recordablesMap node' (g r) = Some (G_SYN + r * NUMBER_OF_STATES_ELEMENTS_PER_RECEPTOR))
      \<and> (\<forall>r. m \<le> r \<and> r < n \<longrightarrow>
             recordablesMap node (g r) \<noteq> None \<and> recordablesMap node' (g r) = None)
      \<and> (\<forall>r. r < n \<and> r < m \<longrightarrow>
             recordablesMap node' (g r) = recordablesMap node (g r) \<and>
             recordablesMap node' (g r) = Some (G_SYN + r * NUMBER_OF_STATES_ELEMENTS_PER_RECEPTOR))
      \<and> (\<forall>k. k \<notin> g ` {n..<m} \<and> k \<notin> g ` {m..<n} \<longrightarrow> recordablesMap node' k = recordablesMap node k)
      \<and> card (g ` {n..<m}) = m - n \<and> card (g ` {m..<n}) = n - m
      \<and> dom (recordablesMap node') = dom (recordablesMap node) \<union> g ` {n..<m} - g ` {m..<n}"
proof -
  let ?rm = "recordablesMap node"
  let ?rm' = "\<lambda>k. if k \<in> g ` {n..<m}
                   then Some (G_SYN + (inv_into {n..<m} g k) * NUMBER_OF_STATES_ELEMENTS_PER_RECEPTOR)
                   else if k \<in> g ` {m..<n} then None else ?rm k"
  let ?node' = "node\<lparr>archiving := arch, recordablesMap := ?rm', node_P := ptmp, node_S := stmp\<rparr>"
  have res: "set_status pset sset aset g d node = (None, ?node')"
    using p s a n m inj step by (rule set_status_commit)
  have rm': "recordablesMap ?node' = ?rm'" by simp
  have old: "\<And>r. r < max n m \<Longrightarrow>
      ?rm (g r) = (if r < n then Some (G_SYN + r * NUMBER_OF_STATES_ELEMENTS_PER_RECEPTOR) else None)"
    using step by (simp add: registry_in_step_iff)
  have apart: "\<And>r r'. r < max n m \<Longrightarrow> r' < max n m \<Longrightarrow> g r = g r' \<Longrightarrow> r = r'"
    using inj by (auto simp: inj_on_def)
  have inj_nm: "inj_on g {n..<m}"
    using inj by (rule inj_on_subset) auto
  have new: "\<And>r. n \<le> r \<Longrightarrow> r < m \<Longrightarrow>
      ?rm' (g r) = Some (G_SYN + r * NUMBER_OF_STATES_ELEMENTS_PER_RECEPTOR)"
    using inj_nm by simp
  have gone: "\<And>r. m \<le> r \<Longrightarrow> r < n \<Longrightarrow> ?rm' (g r) = None"
  proof -
    fix r assume r: "m \<le> r" "r < n"
    then have "{n..<m} = {}" by auto
    with r show "?rm' (g r) = None" by auto
  qed
  have kept: "\<And>r. r < n \<Longrightarrow> r < m \<Longrightarrow> ?rm' (g r) = ?rm (g r)"
  proof -
    fix r assume r: "r < n" "r < m"
    have "g r \<notin> g ` {n..<m}"
    proof
      assume "g r \<in> g ` {n..<m}"
      then obtain r' where r': "r' \<in> {n..<m}" "g r = g r'" by auto
      with apart [of r r'] r show False by auto
    qed
    moreover have "g r \<notin> g ` {m..<n}"
    proof
      assume "g r \<in> g ` {m..<n}"
      then obtain r' where r': "r' \<in> {m..<n}" "g r = g r'" by auto
      with apart [of r r'] r show False by auto
    qed
    ultimately show "?rm' (g r) = ?rm (g r)" by simp
  qed
  have c1: "card (g ` {n..<m}) = m - n"
    using inj by (rule card_receptor_names) simp
  have c2: "card (g ` {m..<n}) = n - m"
    using inj by (rule card_receptor_names) simp
  have sub: "g ` {m..<n} \<subseteq> dom ?rm"
  proof
    fix k assume "k \<in> g ` {m..<n}"
    then obtain r where r: "r \<in> {m..<n}" "k = g r" by auto
    with old [of r] show "k \<in> dom ?rm" by auto
  qed
  have disj: "g ` {n..<m} \<inter> g ` {m..<n} = {}"
  proof (cases "n < m")
    case True then have "{m..<n} = {}" by simp
    then show ?thesis by simp
  next
    case False then have "{n..<m} = {}" by simp
    then show ?thesis by simp
  qed
  have dom: "dom ?rm' = dom ?rm \<union> g ` {n..<m} - g ` {m..<n}"
    using disj by (auto simp: dom_def split: if_splits)
  show ?thesis
  proof (intro exI [of _ ?node'] conjI allI impI)
    show "set_status pset sset aset g d node = (None, ?node')" by (rule res)
  next
    fix r assume r: "n \<le> r \<and> r < m"
    show "recordablesMap node (g r) = None" using old [of r] r by auto
    show "recordablesMap ?node' (g r) = Some (G_SYN + r * NUMBER_OF_STATES_ELEMENTS_PER_RECEPTOR)"
      unfolding rm' using new r by blast
  next
    fix r assume r: "m \<le> r \<and> r < n"
    show "recordablesMap node (g r) \<noteq> None" using old [of r] r by auto
    show "recordablesMap ?node' (g r) = None" unfolding rm' using gone r by blast
  next
    fix r assume r: "r < n \<and> r < m"
    show eq: "recordablesMap ?node' (g r) = recordablesMap node (g r)"
      unfolding rm' using kept r by blast
    show "recordablesMap ?node' (g r) = Some (G_SYN + r * NUMBER_OF_STATES_ELEMENTS_PER_RECEPTOR)"
      unfolding eq using old [of r] r by auto
  next
    fix k assume "k \<notin> g ` {n..<m} \<and> k \<notin> g ` {m..<n}"
    then show "recordablesMap ?node' k = recordablesMap node k" by simp
  next
    show "card (g ` {n..<m}) = m - n" by (rule c1)
    show "card (g ` {m..<n}) = n - m" by (rule c2)
    show "dom (recordablesMap ?node') = dom (recordablesMap node) \<union> g ` {n..<m} - g ` {m..<n}"
      unfolding rm' by (rule dom)
  qed
qed


theorem set_status_recordables_resize_witness:
  "(\<exists>node'. set_status (Parameters_set example_ms_to_steps) (\<lambda>d p delta_EL s. Inr s)
                (\<lambda>d a. (None, a)) example_receptor_name
                (empty_dict\<lparr>d_tau_syn := Some [0.2, 2, 5], d_E_rev := Some [0, - 85, - 70]\<rparr>)
                example_node = (None, node')
            \<and> recordablesMap example_node ''g_3'' = None
            \<and> recordablesMap node' ''g_3'' = Some 11
            \<and> recordablesMap node' ''g_1'' = Some 7
            \<and> recordablesMap node' ''g_2'' = Some 9
            \<and> recordablesMap node' ''V_m'' = recordablesMap example_node ''V_m'')
   \<and> (\<exists>node'. set_status (Parameters_set example_ms_to_steps) (\<lambda>d p delta_EL s. Inr s)
                (\<lambda>d a. (None, a)) example_receptor_name
                (empty_dict\<lparr>d_tau_syn := Some [0.2], d_E_rev := Some [0]\<rparr>)
                example_node = (None, node')
            \<and> recordablesMap example_node ''g_2'' = Some 9
            \<and> recordablesMap node' ''g_2'' = None
            \<and> recordablesMap node' ''g_1'' = Some 7
            \<and> recordablesMap node' ''V_m'' = recordablesMap example_node ''V_m'')"
proof -
  let ?pset = "Parameters_set example_ms_to_steps"
  let ?ok = "\<lambda>(d :: real DictionaryDatum) (p :: real Parameters) (delta_EL :: real) (s :: real State).
               Inr s :: error + real State"
  let ?arch = "\<lambda>(d :: real DictionaryDatum) (a :: unit). (None :: error option, a)"
  let ?g = example_receptor_name
  have names: "?g 0 = ''g_1''" "?g 1 = ''g_2''" "?g 2 = ''g_3''"
    by (simp_all add: example_receptor_name_def decimal.simps)
  note elems = G_SYN_def NUMBER_OF_STATES_ELEMENTS_PER_RECEPTOR_def
  have other: "''V_m'' \<notin> ?g ` {n..<m}" for n m
    by (auto simp: example_receptor_name_def)
  have old: "recordablesMap example_node ''g_3'' = None"
    "recordablesMap example_node ''g_2'' = Some 9"
    "recordablesMap example_node ''g_1'' = Some 7"
    by (simp_all add: example_node_def)
  let ?d3 = "empty_dict\<lparr>d_tau_syn := Some [0.2, 2, 5], d_E_rev := Some [0, - 85, - 70]\<rparr>
               :: real DictionaryDatum"
  let ?d1 = "empty_dict\<lparr>d_tau_syn := Some [0.2], d_E_rev := Some [0]\<rparr> :: real DictionaryDatum"
  have grow: "\<exists>node'. set_status ?pset ?ok ?arch ?g ?d3 example_node = (None, node')
            \<and> recordablesMap example_node ''g_3'' = None
            \<and> recordablesMap node' ''g_3'' = Some 11
            \<and> recordablesMap node' ''g_1'' = Some 7
            \<and> recordablesMap node' ''g_2'' = Some 9
            \<and> recordablesMap node' ''V_m'' = recordablesMap example_node ''V_m''"
  proof -
    have m: "3 = n_receptors (example_P\<lparr>tau_syn := [0.2, 2, 5], E_rev := [0, - 85, - 70]\<rparr>)"
      by (simp add: n_receptors_def)
    have inj: "inj_on ?g {..<max 2 3}"
      using example_names_apart by simp
    have step: "registry_in_step ?g (max 2 3) 2 (recordablesMap example_node)"
      using example_registry by simp
    from set_status_recordables_resize
           [of ?pset ?d3 example_node _ 0 ?ok _ ?arch "()" 2 3 ?g,
            OF example_grow _ _ example_n_receptors [symmetric] m inj step]
    obtain node' where res: "set_status ?pset ?ok ?arch ?g ?d3 example_node = (None, node')"
      and new: "\<forall>r. 2 \<le> r \<and> r < 3 \<longrightarrow>
                  recordablesMap example_node (?g r) = None \<and>
                  recordablesMap node' (?g r) = Some (G_SYN + r * NUMBER_OF_STATES_ELEMENTS_PER_RECEPTOR)"
      and kept: "\<forall>r. r < 2 \<and> r < 3 \<longrightarrow>
                  recordablesMap node' (?g r) = recordablesMap example_node (?g r) \<and>
                  recordablesMap node' (?g r) = Some (G_SYN + r * NUMBER_OF_STATES_ELEMENTS_PER_RECEPTOR)"
      and rest: "\<forall>k. k \<notin> ?g ` {2..<3} \<and> k \<notin> ?g ` {3..<2} \<longrightarrow>
                  recordablesMap node' k = recordablesMap example_node k"
      by auto
    from new [rule_format, of 2] kept [rule_format, of 0] kept [rule_format, of 1]
         rest [rule_format, of "''V_m''"] other res names old
    show ?thesis by (simp add: elems)
  qed
  have shrink: "\<exists>node'. set_status ?pset ?ok ?arch ?g ?d1 example_node = (None, node')
            \<and> recordablesMap example_node ''g_2'' = Some 9
            \<and> recordablesMap node' ''g_2'' = None
            \<and> recordablesMap node' ''g_1'' = Some 7
            \<and> recordablesMap node' ''V_m'' = recordablesMap example_node ''V_m''"
  proof -
    have m: "1 = n_receptors (example_P\<lparr>tau_syn := [0.2], E_rev := [0]\<rparr>)"
      by (simp add: n_receptors_def)
    have inj: "inj_on ?g {..<max 2 1}"
      using example_names_apart by (rule inj_on_subset) auto
    have step: "registry_in_step ?g (max 2 1) 2 (recordablesMap example_node)"
      using example_registry by (simp add: registry_in_step_iff)
    from set_status_recordables_resize
           [of ?pset ?d1 example_node _ 0 ?ok _ ?arch "()" 2 1 ?g,
            OF example_shrink _ _ example_n_receptors [symmetric] m inj step]
    obtain node' where res: "set_status ?pset ?ok ?arch ?g ?d1 example_node = (None, node')"
      and gone: "\<forall>r. 1 \<le> r \<and> r < 2 \<longrightarrow>
                  recordablesMap example_node (?g r) \<noteq> None \<and> recordablesMap node' (?g r) = None"
      and kept: "\<forall>r. r < 2 \<and> r < 1 \<longrightarrow>
                  recordablesMap node' (?g r) = recordablesMap example_node (?g r) \<and>
                  recordablesMap node' (?g r) = Some (G_SYN + r * NUMBER_OF_STATES_ELEMENTS_PER_RECEPTOR)"
      and rest: "\<forall>k. k \<notin> ?g ` {2..<1} \<and> k \<notin> ?g ` {1..<2} \<longrightarrow>
                  recordablesMap node' k = recordablesMap example_node k"
      by auto
    from gone [rule_format, of 1] kept [rule_format, of 0]
         rest [rule_format, of "''V_m''"] other res names old
    show ?thesis by (simp add: elems)
  qed
  from grow shrink show ?thesis by blast
qed

subsection \<open>Conductance channels stay within the state vector\<close>

lemma conductance_elem_index:
  "G_SYN + r * NUMBER_OF_STATES_ELEMENTS_PER_RECEPTOR = G_SYN + 2 * r"
  "G_SYN + 2 * r - NUMBER_OF_RECORDABLES_ELEMENTS = 2 + 2 * r"
  "y_G r = 2 + 2 * r" "y_DG r = 1 + 2 * r"
  by (simp_all add: StateVecElems_defs y_G_def y_DG_def)

lemma get_conductance_element:
  fixes node :: "('d::plus, 'l, 'a) glif_cond"
  shows "get_state_element node (G_SYN + 2 * r) = vec_at (S_y (node_S node)) (2 + 2 * r)"
  by (simp add: get_state_element_def StateVecElems_defs)

lemma registered_accessor_reads:
  fixes node :: "('d::plus, 'l, 'a) glif_cond"
  assumes step: "registry_in_step g k (n_receptors (node_P node)) (recordablesMap node)"
      and len: "length (S_y (node_S node)) = 1 + 2 * n_receptors (node_P node)"
      and r: "r < n_receptors (node_P node)" and k: "n_receptors (node_P node) \<le> k"
  shows "\<exists>elem. recordablesMap node (g r) = Some elem \<and> elem = G_SYN + 2 * r \<and>
           elem - NUMBER_OF_RECORDABLES_ELEMENTS = 2 + 2 * r \<and> 2 + 2 * r = y_G r \<and>
           2 + 2 * r < length (S_y (node_S node)) \<and>
           get_state_element node elem = Some (S_y (node_S node) ! (2 + 2 * r))"
proof -
  have "recordablesMap node (g r) = Some (G_SYN + 2 * r)"
    using step r k by (simp add: registry_in_step_iff conductance_elem_index)
  moreover have "2 + 2 * r < length (S_y (node_S node))"
    using len r by simp
  moreover from this have "get_state_element node (G_SYN + 2 * r) = Some (S_y (node_S node) ! (2 + 2 * r))"
    by (simp add: get_conductance_element vec_at_def)
  ultimately show ?thesis
    by (simp add: conductance_elem_index)
qed

lemma set_status_in_step:
  assumes p: "pset d (node_P node) = Inr (ptmp, delta_EL)"
      and s: "sset d ptmp delta_EL (node_S node) = Inr stmp"
      and a: "aset d (archiving node) = (None, arch)"
      and n: "n = n_receptors (node_P node)" and m: "m = n_receptors ptmp"
      and inj: "inj_on g {..<max n m}"
      and step: "registry_in_step g (max n m) n (recordablesMap node)"
  shows "\<exists>node'. set_status pset sset aset g d node = (None, node') \<and> node_P node' = ptmp \<and>
           node_S node' = stmp \<and> registry_in_step g (max n m) m (recordablesMap node')"
proof -
  let ?rm = "recordablesMap node"
  let ?rm' = "\<lambda>k. if k \<in> g ` {n..<m}
                 then Some (G_SYN + (inv_into {n..<m} g k) * NUMBER_OF_STATES_ELEMENTS_PER_RECEPTOR)
                 else if k \<in> g ` {m..<n} then None else ?rm k"
  let ?node' = "node\<lparr>archiving := arch, recordablesMap := ?rm', node_P := ptmp, node_S := stmp\<rparr>"
  have res: "set_status pset sset aset g d node = (None, ?node')"
    using p s a n m inj step by (rule set_status_commit)
  have old: "\<And>r. r < max n m \<Longrightarrow>
      ?rm (g r) = (if r < n then Some (G_SYN + r * NUMBER_OF_STATES_ELEMENTS_PER_RECEPTOR) else None)"
    using step by (simp add: registry_in_step_iff)
  have apart: "\<And>r r'. r < max n m \<Longrightarrow> r' < max n m \<Longrightarrow> g r = g r' \<Longrightarrow> r = r'"
    using inj by (auto simp: inj_on_def)
  have inj_nm: "inj_on g {n..<m}"
    using inj by (rule inj_on_subset) auto
  have new: "?rm' (g r) = (if r < m then Some (G_SYN + r * NUMBER_OF_STATES_ELEMENTS_PER_RECEPTOR) else None)"
    if r: "r < max n m" for r
  proof -
    consider (ins) "n \<le> r" "r < m" | (del) "m \<le> r" "r < n" | (keep) "r < n" "r < m"
      using r by fastforce
    then show ?thesis
    proof cases
      case ins
      with inj_nm show ?thesis by simp
    next
      case del
      then have "{n..<m} = {}" by auto
      with del show ?thesis by auto
    next
      case keep
      have "g r \<notin> g ` {n..<m}"
      proof
        assume "g r \<in> g ` {n..<m}"
        then obtain q where "q \<in> {n..<m}" "g r = g q" by auto
        with apart [of r q] keep show False by auto
      qed
      moreover have "g r \<notin> g ` {m..<n}"
      proof
        assume "g r \<in> g ` {m..<n}"
        then obtain q where "q \<in> {m..<n}" "g r = g q" by auto
        with apart [of r q] keep show False by auto
      qed
      ultimately show ?thesis using old [OF r] keep by simp
    qed
  qed
  have "registry_in_step g (max n m) m (recordablesMap ?node')"
    unfolding registry_in_step_iff using new by simp
  with res show ?thesis by (intro exI [of _ ?node']) simp
qed

lemma fixed_recordable_reads:
  fixes node :: "('d::plus, 'l, 'a) glif_cond"
  assumes "elem \<le> TH_VLT" and "S_y (node_S node) \<noteq> []"
  shows "\<exists>v. get_state_element node elem = Some v"
proof -
  from assms(1) have "elem = V_M \<or> elem = I_elem \<or> elem = ASC_SUM \<or> elem = TH \<or> elem = TH_SPK \<or> elem = TH_VLT"
    by (auto simp: StateVecElems_defs)
  moreover have "\<exists>v. get_state_element node V_M = Some v"
    using assms(2) by (simp add: get_state_element_def vec_at_def V_M_def)
  ultimately show ?thesis
    by (auto simp: get_state_element_def StateVecElems_defs)
qed

lemma every_accessor_reads:
  fixes node :: "('d::plus, 'l, 'a) glif_cond"
  assumes step: "registry_in_step g k (n_receptors (node_P node)) (recordablesMap node)"
      and k: "n_receptors (node_P node) \<le> k"
      and only: "\<forall>key elem. recordablesMap node key = Some elem \<and> TH_VLT < elem \<longrightarrow>
                   (\<exists>r<n_receptors (node_P node). key = g r)"
      and len: "length (S_y (node_S node)) = 1 + 2 * n_receptors (node_P node)"
      and entry: "recordablesMap node key = Some elem"
  shows "\<exists>v. get_state_element node elem = Some v"
    and "TH_VLT < elem \<Longrightarrow>
           \<exists>r<n_receptors (node_P node). key = g r \<and> elem = G_SYN + 2 * r \<and>
              elem - NUMBER_OF_RECORDABLES_ELEMENTS < length (S_y (node_S node))"
proof -
  have conductance: "\<exists>r<n_receptors (node_P node). key = g r \<and> elem = G_SYN + 2 * r \<and>
              elem - NUMBER_OF_RECORDABLES_ELEMENTS < length (S_y (node_S node)) \<and>
              (\<exists>v. get_state_element node elem = Some v)"
    if beyond: "TH_VLT < elem"
  proof -
    from only entry beyond obtain r where r: "r < n_receptors (node_P node)" "key = g r"
      by blast
    from registered_accessor_reads [OF step len r(1) k]
    obtain e where e: "recordablesMap node (g r) = Some e" "e = G_SYN + 2 * r"
        "e - NUMBER_OF_RECORDABLES_ELEMENTS = 2 + 2 * r"
        "2 + 2 * r < length (S_y (node_S node))"
        "get_state_element node e = Some (S_y (node_S node) ! (2 + 2 * r))"
      by blast
    from e(1) entry r(2) have "elem = e" by simp
    with e r show ?thesis by auto
  qed
  show "\<exists>v. get_state_element node elem = Some v"
  proof (cases "TH_VLT < elem")
    case True
    from conductance [OF this] show ?thesis by blast
  next
    case False
    moreover have "S_y (node_S node) \<noteq> []" using len by auto
    ultimately show ?thesis by (intro fixed_recordable_reads) simp_all
  qed
  show "\<exists>r<n_receptors (node_P node). key = g r \<and> elem = G_SYN + 2 * r \<and>
              elem - NUMBER_OF_RECORDABLES_ELEMENTS < length (S_y (node_S node))"
    if "TH_VLT < elem"
    using conductance [OF that] by blast
qed

lemma set_status_entries:
  assumes p: "pset d (node_P node) = Inr (ptmp, delta_EL)"
      and s: "sset d ptmp delta_EL (node_S node) = Inr stmp"
      and a: "aset d (archiving node) = (None, arch)"
      and n: "n = n_receptors (node_P node)" and m: "m = n_receptors ptmp"
      and inj: "inj_on g {..<max n m}"
      and step: "registry_in_step g (max n m) n (recordablesMap node)"
  shows "\<exists>node'. set_status pset sset aset g d node = (None, node') \<and> node_P node' = ptmp \<and>
           node_S node' = stmp \<and> registry_in_step g (max n m) m (recordablesMap node') \<and>
           (\<forall>key elem. recordablesMap node' key = Some elem \<longrightarrow>
              key \<in> g ` {n..<m} \<or> (key \<notin> g ` {m..<n} \<and> recordablesMap node key = Some elem))"
proof -
  let ?rm = "recordablesMap node"
  let ?rm' = "\<lambda>k. if k \<in> g ` {n..<m}
                 then Some (G_SYN + (inv_into {n..<m} g k) * NUMBER_OF_STATES_ELEMENTS_PER_RECEPTOR)
                 else if k \<in> g ` {m..<n} then None else ?rm k"
  let ?node' = "node\<lparr>archiving := arch, recordablesMap := ?rm', node_P := ptmp, node_S := stmp\<rparr>"
  have res: "set_status pset sset aset g d node = (None, ?node')"
    using p s a n m inj step by (rule set_status_commit)
  from set_status_in_step [where pset = pset and sset = sset and aset = aset and d = d and node = node,
         OF p s a n m inj step] res
  have step': "registry_in_step g (max n m) m (recordablesMap ?node')"
    by auto
  have entries: "\<forall>key elem. recordablesMap ?node' key = Some elem \<longrightarrow>
              key \<in> g ` {n..<m} \<or> (key \<notin> g ` {m..<n} \<and> recordablesMap node key = Some elem)"
    by (auto split: if_splits)
  from res step' entries show ?thesis
    by (intro exI [of _ ?node']) simp
qed

text \<open>
  Claim C10. Take receptor names that are distinct, a registry in step with the receptors,
  and in which every entry beyond the fixed recordables (an element above \<open>TH_VLT\<close>) is
  the channel of a receptor of the neuron, and a state vector of length \<open>1 + 2 * n\<close> for
  \<open>n\<close> receptors. Then the channel of receptor \<open>r\<close> is bound to element \<open>G_SYN + 2 * r\<close>;
  \<open>get_state_element\<close> takes the five recordable-only enumerators off and reads
  \<open>y_[2 + 2 * r]\<close>, the conductance of receptor \<open>r\<close>, within the vector; and every entry
  the registry holds, whatever its name, reads an element that is there. A successful
  \<open>set_status\<close> leaves a neuron of which all of this holds again: each channel, old or
  newly registered, is bound and read as said, every entry beyond the fixed recordables
  is the channel of a receptor below the new count, at an index within the new state
  vector, and no entry of the registry reads out of bounds.
\<close>

theorem conductance_accessor_in_bounds:
  fixes node :: "('d::plus, 'l, 'a) glif_cond"
  assumes p: "pset d (node_P node) = Inr (ptmp, delta_EL)"
      and s: "sset d ptmp delta_EL (node_S node) = Inr stmp"
      and a: "aset d (archiving node) = (None, arch)"
      and inj: "inj_on g {..<max (n_receptors (node_P node)) (n_receptors ptmp)}"
      and step: "registry_in_step g (max (n_receptors (node_P node)) (n_receptors ptmp))
                   (n_receptors (node_P node)) (recordablesMap node)"
      and only: "\<forall>key elem. recordablesMap node key = Some elem \<and> TH_VLT < elem \<longrightarrow>
                   (\<exists>r<n_receptors (node_P node). key = g r)"
      and len: "length (S_y (node_S node)) = 1 + 2 * n_receptors (node_P node)"
      and len': "length (S_y stmp) = 1 + 2 * n_receptors ptmp"
  shows "(\<forall>r. r < n_receptors (node_P node) \<longrightarrow>
           (\<exists>elem. recordablesMap node (g r) = Some elem \<and> elem = G_SYN + 2 * r \<and>
              elem - NUMBER_OF_RECORDABLES_ELEMENTS = 2 + 2 * r \<and> 2 + 2 * r = y_G r \<and>
              2 + 2 * r < length (S_y (node_S node)) \<and>
              get_state_element node elem = Some (S_y (node_S node) ! (2 + 2 * r))))
       \<and> (\<forall>key elem. recordablesMap node key = Some elem \<longrightarrow>
            (\<exists>v. get_state_element node elem = Some v))
       \<and> (\<exists>node'. set_status pset sset aset g d node = (None, node') \<and>
            (\<forall>r. r < n_receptors (node_P node') \<longrightarrow>
               (\<exists>elem. recordablesMap node' (g r) = Some elem \<and> elem = G_SYN + 2 * r \<and>
                  elem - NUMBER_OF_RECORDABLES_ELEMENTS = 2 + 2 * r \<and> 2 + 2 * r = y_G r \<and>
                  2 + 2 * r < length (S_y (node_S node')) \<and>
                  get_state_element node' elem = Some (S_y (node_S node') ! (2 + 2 * r)))) \<and>
            (\<forall>key elem. recordablesMap node' key = Some elem \<and> TH_VLT < elem \<longrightarrow>
               (\<exists>r<n_receptors (node_P node'). key = g r \<and> elem = G_SYN + 2 * r \<and>
                  elem - NUMBER_OF_RECORDABLES_ELEMENTS < length (S_y (node_S node')))) \<and>
            (\<forall>key elem. recordablesMap node' key = Some elem \<longrightarrow>
               (\<exists>v. get_state_element node' elem = Some v)))
       \<and> NUMBER_OF_RECORDABLES_ELEMENTS = 5"
proof (intro conjI)
  show "NUMBER_OF_RECORDABLES_ELEMENTS = 5"
    by (simp add: StateVecElems_defs)
next
  show "\<forall>r. r < n_receptors (node_P node) \<longrightarrow>
           (\<exists>elem. recordablesMap node (g r) = Some elem \<and> elem = G_SYN + 2 * r \<and>
              elem - NUMBER_OF_RECORDABLES_ELEMENTS = 2 + 2 * r \<and> 2 + 2 * r = y_G r \<and>
              2 + 2 * r < length (S_y (node_S node)) \<and>
              get_state_element node elem = Some (S_y (node_S node) ! (2 + 2 * r)))"
  proof (intro allI impI)
    fix r assume "r < n_receptors (node_P node)"
    with step len
    show "\<exists>elem. recordablesMap node (g r) = Some elem \<and> elem = G_SYN + 2 * r \<and>
              elem - NUMBER_OF_RECORDABLES_ELEMENTS = 2 + 2 * r \<and> 2 + 2 * r = y_G r \<and>
              2 + 2 * r < length (S_y (node_S node)) \<and>
              get_state_element node elem = Some (S_y (node_S node) ! (2 + 2 * r))"
      by (rule registered_accessor_reads) simp
  qed
next
  show "\<forall>key elem. recordablesMap node key = Some elem \<longrightarrow>
            (\<exists>v. get_state_element node elem = Some v)"
  proof (intro allI impI)
    fix key elem assume "recordablesMap node key = Some elem"
    with step _ only len show "\<exists>v. get_state_element node elem = Some v"
      by (rule every_accessor_reads(1)) simp
  qed
next
  let ?n = "n_receptors (node_P node)"
  let ?m = "n_receptors ptmp"
  from set_status_entries [where pset = pset and sset = sset and aset = aset and d = d and node = node,
         OF p s a refl refl inj step]
  obtain node' where res: "set_status pset sset aset g d node = (None, node')"
    and sel: "node_P node' = ptmp" "node_S node' = stmp"
    and step': "registry_in_step g (max ?n ?m) ?m (recordablesMap node')"
    and entries: "\<forall>key elem. recordablesMap node' key = Some elem \<longrightarrow>
              key \<in> g ` {?n..<?m} \<or> (key \<notin> g ` {?m..<?n} \<and> recordablesMap node key = Some elem)"
    by blast
  have step'': "registry_in_step g (max ?n ?m) (n_receptors (node_P node')) (recordablesMap node')"
    using step' by (simp add: sel)
  have len'': "length (S_y (node_S node')) = 1 + 2 * n_receptors (node_P node')"
    using len' by (simp add: sel)
  have only': "\<forall>key elem. recordablesMap node' key = Some elem \<and> TH_VLT < elem \<longrightarrow>
                   (\<exists>r<n_receptors (node_P node'). key = g r)"
  proof (intro allI impI)
    fix key elem assume h: "recordablesMap node' key = Some elem \<and> TH_VLT < elem"
    with entries have "key \<in> g ` {?n..<?m} \<or> (key \<notin> g ` {?m..<?n} \<and> recordablesMap node key = Some elem)"
      by blast
    then show "\<exists>r<n_receptors (node_P node'). key = g r"
    proof
      assume "key \<in> g ` {?n..<?m}"
      then show ?thesis by (auto simp: sel)
    next
      assume old: "key \<notin> g ` {?m..<?n} \<and> recordablesMap node key = Some elem"
      with only h obtain r where r: "r < ?n" "key = g r" by blast
      with old have "r < ?m" by (cases "r < ?m") auto
      with r show ?thesis by (auto simp: sel)
    qed
  qed
  have reads: "\<exists>elem. recordablesMap node' (g r) = Some elem \<and> elem = G_SYN + 2 * r \<and>
              elem - NUMBER_OF_RECORDABLES_ELEMENTS = 2 + 2 * r \<and> 2 + 2 * r = y_G r \<and>
              2 + 2 * r < length (S_y (node_S node')) \<and>
              get_state_element node' elem = Some (S_y (node_S node') ! (2 + 2 * r))"
    if "r < n_receptors (node_P node')" for r
    using step'' len'' that by (rule registered_accessor_reads) (simp add: sel)
  have bound: "\<exists>r<n_receptors (node_P node'). key = g r \<and> elem = G_SYN + 2 * r \<and>
                  elem - NUMBER_OF_RECORDABLES_ELEMENTS < length (S_y (node_S node'))"
    if "recordablesMap node' key = Some elem \<and> TH_VLT < elem" for key elem
  proof -
    from that have e: "recordablesMap node' key = Some elem" and b: "TH_VLT < elem" by auto
    have k: "n_receptors (node_P node') \<le> max ?n ?m" by (simp add: sel)
    from every_accessor_reads(2) [OF step'' k only' len'' e b] show ?thesis .
  qed
  have defined: "\<exists>v. get_state_element node' elem = Some v"
    if e: "recordablesMap node' key = Some elem" for key elem
  proof -
    have k: "n_receptors (node_P node') \<le> max ?n ?m" by (simp add: sel)
    from every_accessor_reads(1) [OF step'' k only' len'' e] show ?thesis .
  qed
  from res reads bound defined
  show "\<exists>node'. set_status pset sset aset g d node = (None, node') \<and>
            (\<forall>r. r < n_receptors (node_P node') \<longrightarrow>
               (\<exists>elem. recordablesMap node' (g r) = Some elem \<and> elem = G_SYN + 2 * r \<and>
                  elem - NUMBER_OF_RECORDABLES_ELEMENTS = 2 + 2 * r \<and> 2 + 2 * r = y_G r \<and>
                  2 + 2 * r < length (S_y (node_S node')) \<and>
                  get_state_element node' elem = Some (S_y (node_S node') ! (2 + 2 * r)))) \<and>
            (\<forall>key elem. recordablesMap node' key = Some elem \<and> TH_VLT < elem \<longrightarrow>
               (\<exists>r<n_receptors (node_P node'). key = g r \<and> elem = G_SYN + 2 * r \<and>
                  elem - NUMBER_OF_RECORDABLES_ELEMENTS < length (S_y (node_S node')))) \<and>
            (\<forall>key elem. recordablesMap node' key = Some elem \<longrightarrow>
               (\<exists>v. get_state_element node' elem = Some v))"
    by (intro exI [of _ node'] conjI allI impI) blast+
qed

theorem conductance_accessor_in_bounds_witness:
  "recordablesMap example_node ''g_2'' = Some 9
   \<and> get_state_element example_node 9 = Some (S_y (node_S example_node) ! 4)
   \<and> 4 < length (S_y (node_S example_node))
   \<and> recordablesMap example_node ''V_m'' = Some V_M
   \<and> (\<exists>v. get_state_element example_node V_M = Some v)
   \<and> (\<exists>node'. set_status (Parameters_set example_ms_to_steps)
                  (\<lambda>d p delta_EL s. Inr (s\<lparr>S_y := State_y_resize p (S_y s)\<rparr>))
                  (\<lambda>d a. (None, a)) example_receptor_name
                  (empty_dict\<lparr>d_tau_syn := Some [0.2, 2, 5], d_E_rev := Some [0, - 85, - 70]\<rparr>)
                  example_node = (None, node')
          \<and> recordablesMap node' ''g_3'' = Some 11
          \<and> get_state_element node' 11 = Some (S_y (node_S node') ! 6)
          \<and> 6 < length (S_y (node_S node')))
   \<and> (\<exists>node'. set_status (Parameters_set example_ms_to_steps)
                  (\<lambda>d p delta_EL s. Inr (s\<lparr>S_y := State_y_resize p (S_y s)\<rparr>))
                  (\<lambda>d a. (None, a)) example_receptor_name
                  (empty_dict\<lparr>d_tau_syn := Some [0.2], d_E_rev := Some [0]\<rparr>)
                  example_node = (None, node')
          \<and> recordablesMap node' ''g_1'' = Some 7
          \<and> get_state_element node' 7 = Some (S_y (node_S node') ! 2)
          \<and> recordablesMap node' ''g_2'' \<noteq> Some 9)"
proof -
  let ?pset = "Parameters_set example_ms_to_steps"
  let ?sset = "\<lambda>(d :: real DictionaryDatum) (p :: real Parameters) (delta_EL :: real) (s :: real State).
               Inr (s\<lparr>S_y := State_y_resize p (S_y s)\<rparr>) :: error + real State"
  let ?aset = "\<lambda>(d :: real DictionaryDatum) (a :: unit). (None :: error option, a)"
  let ?g = example_receptor_name
  have names: "?g 0 = ''g_1''" "?g (Suc 0) = ''g_2''" "?g 2 = ''g_3''"
    by (simp_all add: example_receptor_name_def decimal.simps)
  have len: "length (S_y (node_S example_node)) = 1 + 2 * n_receptors (node_P example_node)"
    by (simp add: example_n_receptors) (simp add: example_node_def example_S_def)
  have only: "\<forall>key elem. recordablesMap example_node key = Some elem \<and> TH_VLT < elem \<longrightarrow>
                (\<exists>r<n_receptors (node_P example_node). key = ?g r)"
  proof (intro allI impI)
    fix key elem
    assume "recordablesMap example_node key = Some elem \<and> TH_VLT < elem"
    then have "key = ''g_1'' \<or> key = ''g_2''"
      by (auto simp: example_node_def V_M_def TH_VLT_def split: if_splits)
    then show "\<exists>r<n_receptors (node_P example_node). key = ?g r"
      unfolding example_n_receptors
    proof
      assume "key = ''g_1''"
      with names(1) show "\<exists>r<2. key = ?g r" by (intro exI [of _ 0]) simp
    next
      assume "key = ''g_2''"
      with names(2) show "\<exists>r<2. key = ?g r" by (intro exI [of _ "Suc 0"]) simp
    qed
  qed
  have vm: "recordablesMap example_node ''V_m'' = Some V_M"
    by (simp add: example_node_def)
  have grow: "recordablesMap example_node ''g_2'' = Some 9
       \<and> get_state_element example_node 9 = Some (S_y (node_S example_node) ! 4)
       \<and> 4 < length (S_y (node_S example_node))
       \<and> (\<exists>v. get_state_element example_node V_M = Some v)
       \<and> (\<exists>node'. set_status ?pset ?sset ?aset ?g
                  (empty_dict\<lparr>d_tau_syn := Some [0.2, 2, 5], d_E_rev := Some [0, - 85, - 70]\<rparr>)
                  example_node = (None, node')
          \<and> recordablesMap node' ''g_3'' = Some 11
          \<and> get_state_element node' 11 = Some (S_y (node_S node') ! 6)
          \<and> 6 < length (S_y (node_S node')))"
  proof -
    let ?d = "empty_dict\<lparr>d_tau_syn := Some [0.2, 2, 5], d_E_rev := Some [0, - 85, - 70]\<rparr>
                :: real DictionaryDatum"
    let ?ptmp = "example_P\<lparr>tau_syn := [0.2, 2, 5], E_rev := [0, - 85, - 70]\<rparr>"
    let ?stmp = "(node_S example_node)\<lparr>S_y := State_y_resize ?ptmp (S_y (node_S example_node))\<rparr>"
    have s: "?sset ?d ?ptmp 0 (node_S example_node) = Inr ?stmp"
      by simp
    have a: "?aset ?d (archiving example_node) = (None, ())"
      by simp
    have mx: "max (n_receptors (node_P example_node)) (n_receptors ?ptmp) = 3"
      by (simp add: n_receptors_def example_n_receptors [unfolded n_receptors_def])
    have inj: "inj_on ?g {..<max (n_receptors (node_P example_node)) (n_receptors ?ptmp)}"
      unfolding mx by (rule example_names_apart)
    have step: "registry_in_step ?g (max (n_receptors (node_P example_node)) (n_receptors ?ptmp))
                  (n_receptors (node_P example_node)) (recordablesMap example_node)"
      by (simp only: mx, simp only: example_n_receptors, rule example_registry)
    have len': "length (S_y ?stmp) = 1 + 2 * n_receptors ?ptmp"
      by (simp add: n_receptors_def State_y_resize_def state_vector_size_def StateVecElems_defs)
    note main = conductance_accessor_in_bounds
        [where pset = ?pset and sset = ?sset and aset = ?aset and d = ?d and node = example_node
           and g = ?g, OF example_grow s a inj step only len len']
    from main [THEN conjunct1, rule_format, of 1]
    have old: "recordablesMap example_node ''g_2'' = Some 9
         \<and> get_state_element example_node 9 = Some (S_y (node_S example_node) ! 4)
         \<and> 4 < length (S_y (node_S example_node))"
      by (simp add: example_n_receptors names G_SYN_def)
    from main [THEN conjunct2, THEN conjunct1, rule_format, OF vm]
    have fixed: "\<exists>v. get_state_element example_node V_M = Some v" .
    from main [THEN conjunct2, THEN conjunct2]
    obtain node' where res: "set_status ?pset ?sset ?aset ?g ?d example_node = (None, node')"
      and all: "\<forall>r. r < n_receptors (node_P node') \<longrightarrow>
                 (\<exists>elem. recordablesMap node' (?g r) = Some elem \<and> elem = G_SYN + 2 * r \<and>
                    elem - NUMBER_OF_RECORDABLES_ELEMENTS = 2 + 2 * r \<and> 2 + 2 * r = y_G r \<and>
                    2 + 2 * r < length (S_y (node_S node')) \<and>
                    get_state_element node' elem = Some (S_y (node_S node') ! (2 + 2 * r)))"
      by blast
    have "node_P node' = ?ptmp"
      using res example_grow by (auto simp: set_status_def Let_def split: if_splits prod.splits option.splits)
    then have "2 < n_receptors (node_P node')"
      by (simp add: n_receptors_def)
    with all [rule_format, of 2]
    have new: "recordablesMap node' ''g_3'' = Some 11
         \<and> get_state_element node' 11 = Some (S_y (node_S node') ! 6)
         \<and> 6 < length (S_y (node_S node'))"
      by (simp add: names G_SYN_def)
    from old fixed res new show ?thesis by blast
  qed
  have shrink: "\<exists>node'. set_status ?pset ?sset ?aset ?g
                  (empty_dict\<lparr>d_tau_syn := Some [0.2], d_E_rev := Some [0]\<rparr>)
                  example_node = (None, node')
          \<and> recordablesMap node' ''g_1'' = Some 7
          \<and> get_state_element node' 7 = Some (S_y (node_S node') ! 2)
          \<and> recordablesMap node' ''g_2'' \<noteq> Some 9"
  proof -
    let ?d = "empty_dict\<lparr>d_tau_syn := Some [0.2], d_E_rev := Some [0]\<rparr> :: real DictionaryDatum"
    let ?ptmp = "example_P\<lparr>tau_syn := [0.2], E_rev := [0]\<rparr>"
    let ?stmp = "(node_S example_node)\<lparr>S_y := State_y_resize ?ptmp (S_y (node_S example_node))\<rparr>"
    have s: "?sset ?d ?ptmp 0 (node_S example_node) = Inr ?stmp"
      by simp
    have a: "?aset ?d (archiving example_node) = (None, ())"
      by simp
    have mx: "max (n_receptors (node_P example_node)) (n_receptors ?ptmp) = 2"
      by (simp add: n_receptors_def example_n_receptors [unfolded n_receptors_def])
    have inj: "inj_on ?g {..<max (n_receptors (node_P example_node)) (n_receptors ?ptmp)}"
      unfolding mx using example_names_apart by (rule inj_on_subset) auto
    have "registry_in_step ?g 2 2 (recordablesMap example_node)"
      using example_registry by (simp add: registry_in_step_iff)
    then have step: "registry_in_step ?g (max (n_receptors (node_P example_node)) (n_receptors ?ptmp))
                  (n_receptors (node_P example_node)) (recordablesMap example_node)"
      by (simp only: mx, simp only: example_n_receptors)
    have len': "length (S_y ?stmp) = 1 + 2 * n_receptors ?ptmp"
      by (simp add: n_receptors_def State_y_resize_def state_vector_size_def StateVecElems_defs
            example_node_def example_S_def)
    note main = conductance_accessor_in_bounds
        [where pset = ?pset and sset = ?sset and aset = ?aset and d = ?d and node = example_node
           and g = ?g, OF example_shrink s a inj step only len len']
    from main [THEN conjunct2, THEN conjunct2]
    obtain node' where res: "set_status ?pset ?sset ?aset ?g ?d example_node = (None, node')"
      and all: "\<forall>r. r < n_receptors (node_P node') \<longrightarrow>
                 (\<exists>elem. recordablesMap node' (?g r) = Some elem \<and> elem = G_SYN + 2 * r \<and>
                    elem - NUMBER_OF_RECORDABLES_ELEMENTS = 2 + 2 * r \<and> 2 + 2 * r = y_G r \<and>
                    2 + 2 * r < length (S_y (node_S node')) \<and>
                    get_state_element node' elem = Some (S_y (node_S node') ! (2 + 2 * r)))"
      and bound: "\<forall>key elem. recordablesMap node' key = Some elem \<and> TH_VLT < elem \<longrightarrow>
                 (\<exists>r<n_receptors (node_P node'). key = ?g r \<and> elem = G_SYN + 2 * r \<and>
                    elem - NUMBER_OF_RECORDABLES_ELEMENTS < length (S_y (node_S node')))"
      by blast
    have "node_P node' = ?ptmp"
      using res example_shrink by (auto simp: set_status_def Let_def split: if_splits prod.splits option.splits)
    then have one: "n_receptors (node_P node') = 1"
      by (simp add: n_receptors_def)
    from all [rule_format, of 0]
    have kept: "recordablesMap node' ''g_1'' = Some 7
         \<and> get_state_element node' 7 = Some (S_y (node_S node') ! 2)"
      by (simp add: one names G_SYN_def)
    have gone: "recordablesMap node' ''g_2'' \<noteq> Some 9"
    proof
      assume "recordablesMap node' ''g_2'' = Some 9"
      then have "recordablesMap node' ''g_2'' = Some 9 \<and> TH_VLT < 9"
        by (simp add: TH_VLT_def)
      with bound obtain r where "r < n_receptors (node_P node')" "''g_2'' = ?g r"
        by blast
      then show False
        by (simp add: one names)
    qed
    from res kept gone show ?thesis by blast
  qed
  from grow vm shrink show ?thesis by blast
qed

subsection \<open>The state vector\<close>

lemma state_vector_index_cases:
  "i < state_vector_size p \<Longrightarrow> i = V_M \<or> (\<exists>r<n_receptors p. i = y_DG r \<or> i = y_G r)"
proof -
  assume i: "i < state_vector_size p"
  show ?thesis
  proof (cases "i = 0")
    case True
    then show ?thesis by (simp add: V_M_def)
  next
    case False
    let ?r = "(i - 1) div 2"
    have "?r < n_receptors p"
      using i False by (simp add: state_vector_size_def StateVecElems_defs)
    moreover have "i = 1 + 2 * ?r \<or> i = 2 + 2 * ?r"
      using False by presburger
    ultimately show ?thesis
      by (auto simp: conductance_elem_index)
  qed
qed

text \<open>
  Claim C4. For every parameter set that validation accepts, the number of receptors is
  the length of \<open>tau_syn\<close> (and of \<open>E_rev\<close>), and the state vector, new or resized, has
  length \<open>1 + 2 * n_receptors\<close>. In it the membrane voltage is element 0, and receptor \<open>r\<close>
  has the pair of elements \<open>1 + 2 * r\<close> (the derivative proxy) and \<open>2 + 2 * r\<close> (the
  conductance); every element of the vector is the voltage or belongs to the pair of one
  receptor. A new vector is zero throughout; a resized one keeps its elements and is zero
  beyond them.
\<close>

theorem state_vector_layout:
  fixes p :: "'d::{minus,zero} Parameters"
  shows "(\<forall>ptmp delta_EL. Parameters_set ms_to_steps d p = Inr (ptmp, delta_EL) \<longrightarrow>
            n_receptors ptmp = length (tau_syn ptmp) \<and>
            length (E_rev ptmp) = n_receptors ptmp \<and>
            length (State_y_new ptmp) = 1 + 2 * n_receptors ptmp \<and>
            length (State_y_resize ptmp y) = 1 + 2 * n_receptors ptmp)
       \<and> n_receptors p = length (tau_syn p)
       \<and> state_vector_size p = 1 + 2 * n_receptors p
       \<and> V_M = 0
       \<and> (\<forall>r. r < n_receptors p \<longrightarrow>
            y_DG r = 1 + 2 * r \<and> y_G r = 2 + 2 * r \<and> y_G r < state_vector_size p)
       \<and> (\<forall>i. i < state_vector_size p \<longrightarrow>
            i = V_M \<or> (\<exists>r<n_receptors p. i = y_DG r \<or> i = y_G r))
       \<and> (\<forall>i. i < state_vector_size p \<longrightarrow> State_y_new p ! i = 0)
       \<and> (\<forall>i. i < state_vector_size p \<longrightarrow>
            State_y_resize p y ! i = (if i < length y then y ! i else 0))"
proof -
  have size: "state_vector_size q = 1 + 2 * n_receptors q" for q :: "'d Parameters"
    by (simp add: state_vector_size_def StateVecElems_defs)
  have valid: "n_receptors ptmp = length (tau_syn ptmp) \<and>
            length (E_rev ptmp) = n_receptors ptmp \<and>
            length (State_y_new ptmp) = 1 + 2 * n_receptors ptmp \<and>
            length (State_y_resize ptmp y) = 1 + 2 * n_receptors ptmp"
    if "Parameters_set ms_to_steps d p = Inr (ptmp, delta_EL)" for ptmp delta_EL
  proof -
    from that have "array_lengths_agree ptmp"
      by (auto simp: Parameters_set_def Let_def split: if_splits)
    then have "length (E_rev ptmp) = n_receptors ptmp"
      by (simp add: array_lengths_agree_def n_receptors_def)
    moreover have "length (State_y_resize ptmp y) = 1 + 2 * n_receptors ptmp"
      by (simp add: State_y_resize_def size)
    ultimately show ?thesis
      by (simp add: n_receptors_def State_y_new_def size)
  qed
  have pairs: "y_DG r = 1 + 2 * r \<and> y_G r = 2 + 2 * r \<and> y_G r < state_vector_size p"
    if "r < n_receptors p" for r
    using that by (simp add: conductance_elem_index size)
  have new: "State_y_new p ! i = 0" if "i < state_vector_size p" for i
    using that by (simp add: State_y_new_def)
  have resize: "State_y_resize p y ! i = (if i < length y then y ! i else 0)"
    if "i < state_vector_size p" for i
    using that by (simp add: State_y_resize_def nth_append)
  show ?thesis
    using valid pairs new resize state_vector_index_cases [of _ p]
    by (intro conjI allI impI) (simp_all add: size n_receptors_def V_M_def)
qed

theorem state_vector_layout_witness:
  "Parameters_set example_ms_to_steps
      (empty_dict\<lparr>d_tau_syn := Some [0.2, 2, 5], d_E_rev := Some [0, - 85, - 70]\<rparr>) example_P
     = Inr (example_P\<lparr>tau_syn := [0.2, 2, 5], E_rev := [0, - 85, - 70]\<rparr>, 0)
   \<and> n_receptors (example_P\<lparr>tau_syn := [0.2, 2, 5], E_rev := [0, - 85, - 70]\<rparr>) = 3
   \<and> length (State_y_new (example_P\<lparr>tau_syn := [0.2, 2, 5], E_rev := [0, - 85, - 70]\<rparr>)) = 7
   \<and> length (State_y_resize (example_P\<lparr>tau_syn := [0.2, 2, 5], E_rev := [0, - 85, - 70]\<rparr>)
               (S_y example_S)) = 7
   \<and> y_DG 1 = 3 \<and> y_G 1 = 4 \<and> y_G 1 < state_vector_size example_P
   \<and> State_y_new example_P ! 4 = 0
   \<and> State_y_resize example_P [1, 2, 3] ! 1 = 2
   \<and> State_y_resize example_P [1, 2, 3] ! 4 = 0"
proof -
  let ?d = "empty_dict\<lparr>d_tau_syn := Some [0.2, 2, 5], d_E_rev := Some [0, - 85, - 70]\<rparr>
              :: real DictionaryDatum"
  let ?ptmp = "example_P\<lparr>tau_syn := [0.2, 2, 5], E_rev := [0, - 85, - 70]\<rparr>"
  have grow: "Parameters_set example_ms_to_steps ?d example_P = Inr (?ptmp, 0)"
    using example_grow by (simp only: example_node_sel)
  have n3: "n_receptors ?ptmp = 3" by (simp add: n_receptors_def)
  have n2: "n_receptors example_P = 2" using example_n_receptors by (simp only: example_node_sel)
  have size: "state_vector_size example_P = 5"
    by (simp add: state_vector_size_def n2 StateVecElems_defs)
  note main = state_vector_layout [where ms_to_steps = example_ms_to_steps and d = ?d and p = example_P]
  from main [where y = "S_y example_S", THEN conjunct1, rule_format, OF grow]
  have c1: "length (State_y_new ?ptmp) = 7 \<and> length (State_y_resize ?ptmp (S_y example_S)) = 7"
    unfolding n3 by simp
  from main [where y = "[]", THEN conjunct2, THEN conjunct2, THEN conjunct2, THEN conjunct2,
             THEN conjunct1, rule_format, of 1]
  have c2: "y_DG 1 = 3 \<and> y_G 1 = 4 \<and> y_G 1 < state_vector_size example_P"
    unfolding n2 by simp
  from main [where y = "[]", THEN conjunct2, THEN conjunct2, THEN conjunct2, THEN conjunct2,
             THEN conjunct2, THEN conjunct2, THEN conjunct1, rule_format, of 4]
  have c3: "State_y_new example_P ! 4 = 0"
    unfolding size by simp
  note resize = main [where y = "[1, 2, 3]", THEN conjunct2, THEN conjunct2, THEN conjunct2,
             THEN conjunct2, THEN conjunct2, THEN conjunct2, THEN conjunct2, rule_format]
  from resize [of 1] have c4: "State_y_resize example_P [1, 2, 3] ! 1 = 2"
    unfolding size by simp
  from resize [of 4] have c5: "State_y_resize example_P [1, 2, 3] ! 4 = 0"
    unfolding size by simp
  from grow n3 c1 c2 c3 c4 c5 show ?thesis by (intro conjI) simp_all
qed

subsection \<open>Recordables and events\<close>

text \<open>
  Claim C7. The membrane-voltage channel and the composite-threshold channel report
  absolute values: reading element \<open>V_M\<close> gives the stored, rest-relative \<open>y_[V_M]\<close> plus
  \<open>E_L_\<close> (where the state vector has that element at all), reading \<open>TH\<close> gives
  \<open>threshold_ + E_L_\<close>. The channels of the two threshold components, \<open>TH_SPK\<close> and
  \<open>TH_VLT\<close>, give the stored components as they are.
\<close>

theorem recordables_absolute_and_unshifted:
  fixes node :: "('d::plus, 'l, 'a) glif_cond"
  shows "(S_y (node_S node) \<noteq> [] \<longrightarrow>
            get_state_element node V_M = Some (S_y (node_S node) ! V_M + E_L (node_P node)))
       \<and> get_state_element node TH = Some (threshold (node_S node) + E_L (node_P node))
       \<and> get_state_element node TH_SPK = Some (threshold_spike (node_S node))
       \<and> get_state_element node TH_VLT = Some (threshold_voltage (node_S node))"
  by (simp add: get_state_element_def vec_at_def StateVecElems_defs)

theorem recordables_absolute_and_unshifted_witness:
  "S_y (node_S example_node) \<noteq> []
   \<and> get_state_element example_node V_M = Some (- 78.85)
   \<and> get_state_element example_node TH = Some (- 51.68)
   \<and> get_state_element example_node TH_SPK = Some 0
   \<and> get_state_element example_node TH_VLT = Some 0"
  using recordables_absolute_and_unshifted [of example_node]
  by (simp add: example_node_def example_S_def example_P_def V_M_def)

text \<open>
  Claim C8. Port validation of the connection tests. A current event is accepted exactly
  at port 0, and at any other port the call throws \<open>UnknownReceptorType\<close> and leaves the
  neuron as it was. A data-logging request at a port other than 0 throws
  \<open>UnknownReceptorType\<close> and leaves the neuron as it was; at port 0 it passes to the logger,
  whose answer is the answer of the call, so a request that is accepted was addressed to
  port 0, and with a logger that accepts the request it is accepted exactly at port 0. A
  spike event is accepted only at a port from 0 up to the number of receptors. A rejected
  current or spike event leaves the neuron as it was, and a data-logging request, accepted
  or not, leaves parameters, state and registry as they were.
\<close>

theorem event_port_validation:
  fixes node :: "('d, 'l, 'a) glif_cond"
  shows "(fst (handles_test_event_CurrentEvent node receptor_type) = Inr 0 \<longleftrightarrow> receptor_type = 0)
       \<and> ((\<exists>port. fst (handles_test_event_CurrentEvent node receptor_type) = Inr port)
            \<longleftrightarrow> receptor_type = 0)
       \<and> (receptor_type \<noteq> 0 \<longrightarrow>
            handles_test_event_CurrentEvent node receptor_type
              = (Inl (UnknownReceptorType receptor_type), node))
       \<and> (receptor_type \<noteq> 0 \<longrightarrow>
            handles_test_event_DataLoggingRequest connect node dlr receptor_type
              = (Inl (UnknownReceptorType receptor_type), node))
       \<and> (receptor_type = 0 \<longrightarrow>
            fst (handles_test_event_DataLoggingRequest connect node dlr receptor_type)
              = fst (connect dlr (recordablesMap node) (logger (node_B node))))
       \<and> ((\<exists>port. fst (handles_test_event_DataLoggingRequest connect node dlr receptor_type) = Inr port)
            \<longrightarrow> receptor_type = 0)
       \<and> ((\<exists>port. fst (connect dlr (recordablesMap node) (logger (node_B node))) = Inr port) \<longrightarrow>
            ((\<exists>port. fst (handles_test_event_DataLoggingRequest connect node dlr receptor_type) = Inr port)
               \<longleftrightarrow> receptor_type = 0))
       \<and> ((\<exists>port. fst (handles_test_event_SpikeEvent node receptor_type) = Inr port)
            \<longrightarrow> 0 \<le> receptor_type \<and> receptor_type < int (n_receptors (node_P node)))
       \<and> (\<forall>e. fst (handles_test_event_CurrentEvent node receptor_type) = Inl e \<longrightarrow>
            snd (handles_test_event_CurrentEvent node receptor_type) = node)
       \<and> (\<forall>e. fst (handles_test_event_SpikeEvent node receptor_type) = Inl e \<longrightarrow>
            snd (handles_test_event_SpikeEvent node receptor_type) = node)
       \<and> node_P (snd (handles_test_event_DataLoggingRequest connect node dlr receptor_type)) = node_P node
       \<and> node_S (snd (handles_test_event_DataLoggingRequest connect node dlr receptor_type)) = node_S node
       \<and> recordablesMap (snd (handles_test_event_DataLoggingRequest connect node dlr receptor_type))
           = recordablesMap node"
proof -
  have cur: "handles_test_event_CurrentEvent node receptor_type
             = (if receptor_type \<noteq> 0 then (Inl (UnknownReceptorType receptor_type), node)
                else (Inr 0, node))"
    by (simp add: handles_test_event_CurrentEvent_def)
  have spike: "handles_test_event_SpikeEvent node receptor_type
             = (if 0 \<le> receptor_type \<and> receptor_type < int (n_receptors (node_P node))
                then (Inr receptor_type, node)
                else (Inl (ReceptorPortOutOfRange receptor_type), node))"
    by (simp add: handles_test_event_SpikeEvent_def)
  have dlr_off: "handles_test_event_DataLoggingRequest connect node dlr receptor_type
             = (Inl (UnknownReceptorType receptor_type), node)" if "receptor_type \<noteq> 0"
    using that by (simp add: handles_test_event_DataLoggingRequest_def)
  have dlr_zero: "fst (handles_test_event_DataLoggingRequest connect node dlr receptor_type)
             = fst (connect dlr (recordablesMap node) (logger (node_B node)))" if "receptor_type = 0"
    using that by (simp add: handles_test_event_DataLoggingRequest_def split: prod.splits)
  have dlr_frame:
    "node_P (snd (handles_test_event_DataLoggingRequest connect node dlr receptor_type)) = node_P node"
    "node_S (snd (handles_test_event_DataLoggingRequest connect node dlr receptor_type)) = node_S node"
    "recordablesMap (snd (handles_test_event_DataLoggingRequest connect node dlr receptor_type))
       = recordablesMap node"
    by (simp_all add: handles_test_event_DataLoggingRequest_def split: prod.splits)
  have dlr_only: "receptor_type = 0"
    if "\<exists>port. fst (handles_test_event_DataLoggingRequest connect node dlr receptor_type) = Inr port"
  proof (rule ccontr)
    assume "receptor_type \<noteq> 0"
    from dlr_off [OF this] that show False by simp
  qed
  have spike_only: "0 \<le> receptor_type \<and> receptor_type < int (n_receptors (node_P node))"
    if "\<exists>port. fst (handles_test_event_SpikeEvent node receptor_type) = Inr port"
    using that by (auto simp: spike split: if_splits)
  have spike_frame: "snd (handles_test_event_SpikeEvent node receptor_type) = node"
    by (simp add: spike)
  show ?thesis
    using dlr_off dlr_zero dlr_frame dlr_only spike_only spike_frame
    by (intro conjI allI impI) (auto simp: cur)
qed

theorem event_port_validation_witness:
  "handles_test_event_CurrentEvent example_node 1 = (Inl (UnknownReceptorType 1), example_node)
   \<and> handles_test_event_DataLoggingRequest (\<lambda>dlr rm l. (Inr 1, Suc l)) example_node () 2
       = (Inl (UnknownReceptorType 2), example_node)
   \<and> fst (handles_test_event_DataLoggingRequest (\<lambda>dlr rm l. (Inr 1, Suc l)) example_node () 0) = Inr 1
   \<and> fst (handles_test_event_CurrentEvent example_node 0) = Inr 0
   \<and> fst (handles_test_event_SpikeEvent example_node 1) = Inr 1
   \<and> fst (handles_test_event_SpikeEvent example_node 2) = Inl (ReceptorPortOutOfRange 2)
   \<and> snd (handles_test_event_SpikeEvent example_node 2) = example_node"
proof -
  have n: "n_receptors (node_P example_node) = 2"
    by (simp add: example_node_def example_P_def n_receptors_def)
  have spike_in: "fst (handles_test_event_SpikeEvent example_node 1) = Inr 1"
    by (simp add: handles_test_event_SpikeEvent_def n)
  have spike_out: "fst (handles_test_event_SpikeEvent example_node 2) = Inl (ReceptorPortOutOfRange 2)"
    by (simp add: handles_test_event_SpikeEvent_def n)
  have cur: "fst (handles_test_event_CurrentEvent example_node 0) = Inr 0"
    by (simp add: handles_test_event_CurrentEvent_def)
  show ?thesis
    using event_port_validation [of example_node 1 "\<lambda>dlr rm l. (Inr 1, Suc l)" "()"]
      event_port_validation [of example_node 2 "\<lambda>dlr rm l. (Inr 1, Suc l)" "()"]
      event_port_validation [of example_node 0 "\<lambda>dlr rm l. (Inr 1, Suc l)" "()"]
      spike_in spike_out cur
    by simp
qed


end
